theory Spec2Isabelle
  imports Complex_Main
begin

section \<open>The persisted relations (db/migrations 001, 002, 003)\<close>

text \<open>
  Primary keys are the values of \<open>uuid_generate_v4()\<close>; the service only stores, compares
  and returns them, so they are modelled as naturals. A uuid is a non-empty string in
  JavaScript and therefore never falsy. A Buffer is a list of 8-bit characters.
  Timestamps are milliseconds since the epoch. Account identifiers reach the service as
  request strings and stay strings.
\<close>

type_synonym uuid = nat
type_synonym bytes = string
type_synonym timestamp = int

datatype token_status = ACTIVE | USED | EXPIRED
datatype transaction_type = WITHDRAWAL | REVERSAL
datatype transaction_status = TX_PENDING | TX_SUCCESS | TX_FAILED | TX_REVERSED
datatype redemption_result = ATT_SUCCESS | ATT_INVALID | ATT_EXPIRED | ATT_USED

record token_row =
  tok_id :: uuid
  tok_token_hash :: bytes
  tok_salt :: bytes
  tok_prefix :: string
  tok_account_id :: string
  tok_amount :: rat
  tok_status :: token_status
  tok_created_at :: timestamp
  tok_expires_at :: timestamp
  tok_used_at :: "timestamp option"

record transaction_row =
  txn_id :: uuid
  txn_account_id :: string
  txn_token_id :: uuid
  txn_type :: transaction_type
  txn_amount :: rat
  txn_status :: transaction_status

record attempt_row =
  att_id :: uuid
  att_token_id :: uuid
  att_agent_id :: string
  att_result :: redemption_result
  att_metadata :: string

text \<open>
  The store: one list of rows per table, in insertion order. Of an account only its id
  matters to the token service (the foreign keys point at it).
\<close>

record store =
  accounts :: "string list"
  tokens :: "token_row list"
  transactions :: "transaction_row list"
  redemption_attempts :: "attempt_row list"

text \<open>The errors PostgreSQL raises for the constraints of the schema, with their codes.\<close>

datatype db_error =
  NumericValueOutOfRange | CheckViolation | UniqueViolation | ForeignKeyViolation

fun err_code :: "db_error \<Rightarrow> string" where
  "err_code NumericValueOutOfRange = ''22003''"
| "err_code CheckViolation = ''23514''"
| "err_code UniqueViolation = ''23505''"
| "err_code ForeignKeyViolation = ''23503''"

text \<open>What a call throws: an \<open>Error\<close> with its message, a storage error, or a library error.\<close>

datatype joi_error =
  StringGuid | NumberBase | NumberInfinity | NumberUnsafe | NumberInteger | NumberPositive

datatype error =
  InvalidParams joi_error
| JsError string
| Storage db_error
| RangeError
| TypeError

text \<open>
  The effects of a call on its collaborators, in the order the code performs them: calls
  into the crypto library, and statements sent to the store.
\<close>

datatype event =
  RandomToken nat
| RandomBytes nat
| HashToken
| InsertToken
| TxBegin string
| SelectCandidates string timestamp
| HashVerify
| SelectForUpdate uuid
| UpdateTokenUsed uuid
| InsertTransaction
| InsertAttempt
| TxCommit
| TxRollback

text \<open>\<open>numeric(15, 2)\<close>: at most thirteen digits before the decimal point.\<close>

definition numeric_15_2 :: "rat \<Rightarrow> bool" where
  "numeric_15_2 a = (\<bar>a\<bar> < 10 ^ 13)"

text \<open>
  \<open>INSERT INTO tokens\<close>: the column type, the CHECK constraints
  (\<open>tokens_amount_positive\<close>, \<open>tokens_expires_after_created\<close>,
  \<open>tokens_used_at_consistency\<close>), the primary key and \<open>tokens_token_hash_uq\<close>, then
  the foreign key to \<open>accounts\<close>.
\<close>

definition insert_token :: "store \<Rightarrow> token_row \<Rightarrow> db_error + store" where
  "insert_token db r =
     (if \<not> numeric_15_2 (tok_amount r) then Inl NumericValueOutOfRange
      else if \<not> (tok_amount r > 0) \<or> \<not> (tok_expires_at r > tok_created_at r)
              \<or> ((tok_status r = USED) \<noteq> (tok_used_at r \<noteq> None)) then Inl CheckViolation
      else if tok_id r \<in> set (map tok_id (tokens db))
              \<or> tok_token_hash r \<in> set (map tok_token_hash (tokens db)) then Inl UniqueViolation
      else if tok_account_id r \<notin> set (accounts db) then Inl ForeignKeyViolation
      else Inr (db\<lparr>tokens := tokens db @ [r]\<rparr>))"

text \<open>\<open>INSERT INTO transactions\<close>: \<open>transactions_amount_positive\<close>, the primary key, the
  foreign keys to \<open>accounts\<close> and \<open>tokens\<close>.\<close>

definition insert_transaction :: "store \<Rightarrow> transaction_row \<Rightarrow> db_error + store" where
  "insert_transaction db r =
     (if \<not> numeric_15_2 (txn_amount r) then Inl NumericValueOutOfRange
      else if \<not> (txn_amount r > 0) then Inl CheckViolation
      else if txn_id r \<in> set (map txn_id (transactions db)) then Inl UniqueViolation
      else if txn_account_id r \<notin> set (accounts db)
              \<or> txn_token_id r \<notin> set (map tok_id (tokens db)) then Inl ForeignKeyViolation
      else Inr (db\<lparr>transactions := transactions db @ [r]\<rparr>))"

text \<open>\<open>INSERT INTO redemption_attempts\<close>: the primary key and the foreign key to \<open>tokens\<close>.\<close>

definition insert_attempt :: "store \<Rightarrow> attempt_row \<Rightarrow> db_error + store" where
  "insert_attempt db r =
     (if att_id r \<in> set (map att_id (redemption_attempts db)) then Inl UniqueViolation
      else if att_token_id r \<notin> set (map tok_id (tokens db)) then Inl ForeignKeyViolation
      else Inr (db\<lparr>redemption_attempts := redemption_attempts db @ [r]\<rparr>))"

text \<open>\<open>trx('tokens').where({prefix, status: 'ACTIVE'}).andWhere('expires_at', '>', now)\<close>\<close>

definition candidateTokens :: "store \<Rightarrow> string \<Rightarrow> timestamp \<Rightarrow> token_row list" where
  "candidateTokens db pfx now =
     filter (\<lambda>t. tok_prefix t = pfx \<and> tok_status t = ACTIVE \<and> tok_expires_at t > now) (tokens db)"

text \<open>\<open>trx('tokens').where({id}).forUpdate().first()\<close>\<close>

definition first_for_update :: "store \<Rightarrow> uuid \<Rightarrow> token_row option" where
  "first_for_update db i = find (\<lambda>t. tok_id t = i) (tokens db)"

text \<open>\<open>trx('tokens').where({id, status: 'ACTIVE'}).update({status: 'USED', used_at: now})\<close>\<close>

definition update_used :: "store \<Rightarrow> uuid \<Rightarrow> timestamp \<Rightarrow> store" where
  "update_used db i now =
     db\<lparr>tokens := map (\<lambda>t. if tok_id t = i \<and> tok_status t = ACTIVE
                               then t\<lparr>tok_status := USED, tok_used_at := Some now\<rparr> else t)
                        (tokens db)\<rparr>"

text \<open>
  \<open>db.transaction(callback, {isolationLevel})\<close> of knex: the callback runs on the
  transaction's view of the store; when it throws, the transaction is rolled back and the
  error is thrown on, otherwise its writes are committed.
\<close>

definition transaction ::
  "string \<Rightarrow> (store \<Rightarrow> (error + 'a) \<times> store \<times> event list) \<Rightarrow> store
     \<Rightarrow> (error + 'a) \<times> store \<times> event list" where
  "transaction isolationLevel callback db =
     (case callback db of
        (Inl e, db', tr) \<Rightarrow> (Inl e, db, TxBegin isolationLevel # tr @ [TxRollback])
      | (Inr v, db', tr) \<Rightarrow> (Inr v, db', TxBegin isolationLevel # tr @ [TxCommit]))"

section \<open>The token service (services/tokenService.js)\<close>

text \<open>
  What the service takes from outside the repository: the SHA-256 of the crypto library,
  Joi's test for a uuid string, and the token section of the configuration.
\<close>

record externals =
  sha256 :: "bytes \<Rightarrow> bytes"
  joi_uuid :: "string \<Rightarrow> bool"

record token_config =
  pepper :: string
  expirySeconds :: int

definition charset :: string where
  "charset = ''ABCDEFGHIJKLMNOPQRSTUVWXYZ0123456789''"

definition MAX_RETRIES :: nat where
  "MAX_RETRIES = 3"

text \<open>\<open>crypto.randomInt(lo, hi)\<close> on the entropy \<open>e\<close>: a value of \<open>[lo, hi)\<close>.\<close>

definition randomInt :: "nat \<Rightarrow> nat \<Rightarrow> nat \<Rightarrow> nat" where
  "randomInt lo hi e = lo + e mod (hi - lo)"

text \<open>\<open>crypto.randomBytes(n)\<close> on the entropy \<open>rnd\<close>.\<close>

definition randomBytes :: "(nat \<Rightarrow> nat) \<Rightarrow> nat \<Rightarrow> bytes" where
  "randomBytes rnd n = map (\<lambda>i. char_of (rnd i)) [0..<n]"

text \<open>\<open>generateRandomToken(length)\<close>: the loop appends one character of the charset per
  round; \<open>rnd i\<close> is the entropy of round \<open>i\<close>.\<close>

fun generateRandomToken :: "(nat \<Rightarrow> nat) \<Rightarrow> nat \<Rightarrow> string" where
  "generateRandomToken rnd 0 = []"
| "generateRandomToken rnd (Suc i) =
     generateRandomToken rnd i @ [charset ! randomInt 0 (length charset) (rnd i)]"

text \<open>\<open>hashToken\<close>: SHA256(pepper + token + salt).\<close>

definition hashToken :: "externals \<Rightarrow> token_config \<Rightarrow> string \<Rightarrow> bytes \<Rightarrow> bytes" where
  "hashToken ext cfg plaintextToken salt = sha256 ext (pepper cfg @ plaintextToken @ salt)"

text \<open>\<open>crypto.timingSafeEqual\<close>: throws a RangeError on buffers of different lengths.\<close>

definition timingSafeEqual :: "bytes \<Rightarrow> bytes \<Rightarrow> error + bool" where
  "timingSafeEqual a b = (if length a \<noteq> length b then Inl RangeError else Inr (a = b))"

text \<open>
  \<open>validateGenerationParams\<close>: the Joi schema \<open>accountId: string().uuid().required()\<close>,
  \<open>amount: number().integer().positive().required()\<close>. A JavaScript number is a finite
  value, NaN or an infinity. Joi reports the first rule that fails, key by key; a number
  must be finite and within the safe integer range before its rules run. The result is
  the error, or the validated amount.
\<close>

datatype js_number = Num rat | NaN | PosInfinity | NegInfinity

definition MAX_SAFE_INTEGER :: rat where
  "MAX_SAFE_INTEGER = 2 ^ 53 - 1"

definition is_integer :: "rat \<Rightarrow> bool" where
  "is_integer a = (of_int \<lfloor>a\<rfloor> = a)"

definition validateGenerationParams :: "externals \<Rightarrow> string \<Rightarrow> js_number \<Rightarrow> joi_error + rat" where
  "validateGenerationParams ext accountId amount =
     (if \<not> joi_uuid ext accountId then Inl StringGuid
      else case amount of
             NaN \<Rightarrow> Inl NumberBase
           | PosInfinity \<Rightarrow> Inl NumberInfinity
           | NegInfinity \<Rightarrow> Inl NumberInfinity
           | Num a \<Rightarrow>
               if a > MAX_SAFE_INTEGER \<or> a < - MAX_SAFE_INTEGER then Inl NumberUnsafe
               else if \<not> is_integer a then Inl NumberInteger
               else if \<not> a > 0 then Inl NumberPositive
               else Inr a)"

text \<open>
  What one round of the generation loop draws from outside: the entropy of the core, of
  the prefix and of the salt, \<open>Date.now()\<close>, and the id and \<open>created_at\<close> the database
  gives the new row.
\<close>

record gen_draw =
  core_rnd :: "nat \<Rightarrow> nat"
  prefix_rnd :: "nat \<Rightarrow> nat"
  salt_rnd :: "nat \<Rightarrow> nat"
  date_now :: timestamp
  db_uuid :: uuid
  db_now :: timestamp

record gen_result =
  g_id :: uuid
  g_token :: string
  g_amount :: rat
  g_expiresAt :: timestamp

text \<open>The body of the \<open>try\<close> block: build the token, hash it, insert the row.\<close>

definition generation_attempt ::
  "externals \<Rightarrow> token_config \<Rightarrow> gen_draw \<Rightarrow> string \<Rightarrow> rat \<Rightarrow> store \<Rightarrow> db_error + gen_result \<times> store" where
  "generation_attempt ext cfg d accountId amount db =
     (let coreToken = generateRandomToken (core_rnd d) 8;
          tokenIdPrefix = generateRandomToken (prefix_rnd d) 4;
          plaintextToken = tokenIdPrefix @ ''-'' @ coreToken;
          salt = randomBytes (salt_rnd d) 16;
          tokenHash = hashToken ext cfg plaintextToken salt;
          expiresAt = date_now d + expirySeconds cfg * 1000
      in case insert_token db
                \<lparr>tok_id = db_uuid d, tok_token_hash = tokenHash, tok_salt = salt,
                 tok_prefix = tokenIdPrefix, tok_account_id = accountId, tok_amount = amount,
                 tok_status = ACTIVE, tok_created_at = db_now d, tok_expires_at = expiresAt,
                 tok_used_at = None\<rparr> of
           Inl err \<Rightarrow> Inl err
         | Inr db' \<Rightarrow>
             Inr (\<lparr>g_id = db_uuid d, g_token = plaintextToken, g_amount = amount,
                   g_expiresAt = expiresAt\<rparr>, db'))"

definition attempt_events :: "event list" where
  "attempt_events = [RandomToken 8, RandomToken 4, RandomBytes 16, HashToken, InsertToken]"

text \<open>
  The \<open>while (retries < this.MAX_RETRIES)\<close> loop. Round \<open>retries\<close> takes its draws from
  \<open>draws retries\<close>. A loop that ends without returning makes the function return
  \<open>undefined\<close>, here \<open>None\<close>.
\<close>

function generation_loop ::
  "externals \<Rightarrow> token_config \<Rightarrow> (nat \<Rightarrow> gen_draw) \<Rightarrow> string \<Rightarrow> rat \<Rightarrow> nat \<Rightarrow> store
     \<Rightarrow> (error + gen_result option) \<times> store \<times> event list" where
  "generation_loop ext cfg draws accountId amount retries db =
     (if retries < MAX_RETRIES then
        (case generation_attempt ext cfg (draws retries) accountId amount db of
           Inr (r, db') \<Rightarrow> (Inr (Some r), db', attempt_events)
         | Inl err \<Rightarrow>
             if err_code err = ''23505'' then
               (if retries + 1 \<ge> MAX_RETRIES
                then (Inl (JsError ''Failed to generate unique token after maximum retries''),
                      db, attempt_events)
                else (case generation_loop ext cfg draws accountId amount (retries + 1) db of
                        (out, db', tr) \<Rightarrow> (out, db', attempt_events @ tr)))
             else (Inl (Storage err), db, attempt_events))
      else (Inr None, db, []))"
  by pat_completeness auto
termination
  by (relation "measure (\<lambda>(ext, cfg, draws, accountId, amount, retries, db). MAX_RETRIES - retries)")
     auto

declare generation_loop.simps [simp del]

definition generateWithdrawalToken ::
  "externals \<Rightarrow> token_config \<Rightarrow> (nat \<Rightarrow> gen_draw) \<Rightarrow> string \<Rightarrow> js_number \<Rightarrow> store
     \<Rightarrow> (error + gen_result option) \<times> store \<times> event list" where
  "generateWithdrawalToken ext cfg draws accountId amount db =
     (case validateGenerationParams ext accountId amount of
        Inl e \<Rightarrow> (Inl (InvalidParams e), db, [])
      | Inr a \<Rightarrow> generation_loop ext cfg draws accountId a 0 db)"

subsection \<open>Redemption\<close>

text \<open>\<open>String.prototype.split(sep)\<close> for a one-character separator: every occurrence splits.\<close>

fun split_on :: "char \<Rightarrow> string \<Rightarrow> string list" where
  "split_on c [] = [[]]"
| "split_on c (x # xs) =
     (if x = c then [] # split_on c xs
      else (case split_on c xs of [] \<Rightarrow> [[x]] | s # ss \<Rightarrow> (x # s) # ss))"

datatype redeem_outcome = SUCCESS uuid uuid | INVALID | EXPIRED_OR_USED

text \<open>
  What one redemption reads from outside: \<open>new Date()\<close> in the candidate query, in the
  check under the lock and in the update, and the ids the database gives the ledger row
  and the attempt row.
\<close>

record redeem_env =
  now_lookup :: timestamp
  now_lock :: timestamp
  now_used :: timestamp
  new_txn_id :: uuid
  new_attempt_id :: uuid

text \<open>The verification loop over the candidates: the id of the first whose hash matches.\<close>

fun verify_candidates ::
  "externals \<Rightarrow> token_config \<Rightarrow> string \<Rightarrow> token_row list \<Rightarrow> error + uuid option" where
  "verify_candidates ext cfg fullToken [] = Inr None"
| "verify_candidates ext cfg fullToken (t # ts) =
     (case timingSafeEqual (hashToken ext cfg fullToken (tok_salt t)) (tok_token_hash t) of
        Inl e \<Rightarrow> Inl e
      | Inr True \<Rightarrow> Inr (Some (tok_id t))
      | Inr False \<Rightarrow> verify_candidates ext cfg fullToken ts)"

text \<open>What the same loop asks of the crypto library: one hash for each candidate it
  compares, and none after the first match or after a throw.\<close>

fun verify_trace ::
  "externals \<Rightarrow> token_config \<Rightarrow> string \<Rightarrow> token_row list \<Rightarrow> event list" where
  "verify_trace ext cfg fullToken [] = []"
| "verify_trace ext cfg fullToken (t # ts) =
     HashVerify #
     (case timingSafeEqual (hashToken ext cfg fullToken (tok_salt t)) (tok_token_hash t) of
        Inl e \<Rightarrow> []
      | Inr True \<Rightarrow> []
      | Inr False \<Rightarrow> verify_trace ext cfg fullToken ts)"

text \<open>Steps 2 to 5 of the callback: lock the matched row, check it again, mark it USED,
  insert the ledger row and the attempt row.\<close>

definition redeem_locked ::
  "redeem_env \<Rightarrow> uuid \<Rightarrow> string \<Rightarrow> string \<Rightarrow> store
     \<Rightarrow> (error + redeem_outcome) \<times> store \<times> event list" where
  "redeem_locked env matchedTokenId agentId metadata db =
     (case first_for_update db matchedTokenId of
        None \<Rightarrow> (Inr EXPIRED_OR_USED, db, [SelectForUpdate matchedTokenId])
      | Some token \<Rightarrow>
          if tok_status token \<noteq> ACTIVE \<or> now_lock env \<ge> tok_expires_at token
          then (Inr EXPIRED_OR_USED, db, [SelectForUpdate matchedTokenId])
          else
            (let db1 = update_used db (tok_id token) (now_used env) in
             case insert_transaction db1
                    \<lparr>txn_id = new_txn_id env, txn_account_id = tok_account_id token,
                     txn_token_id = tok_id token, txn_type = WITHDRAWAL,
                     txn_amount = tok_amount token, txn_status = TX_SUCCESS\<rparr> of
               Inl err \<Rightarrow>
                 (Inl (Storage err), db1,
                  [SelectForUpdate matchedTokenId, UpdateTokenUsed (tok_id token), InsertTransaction])
             | Inr db2 \<Rightarrow>
                 (case insert_attempt db2
                         \<lparr>att_id = new_attempt_id env, att_token_id = tok_id token,
                          att_agent_id = agentId, att_result = ATT_SUCCESS,
                          att_metadata = metadata\<rparr> of
                    Inl err \<Rightarrow>
                      (Inl (Storage err), db2,
                       [SelectForUpdate matchedTokenId, UpdateTokenUsed (tok_id token),
                        InsertTransaction, InsertAttempt])
                  | Inr db3 \<Rightarrow>
                      (Inr (SUCCESS (tok_id token) (new_txn_id env)), db3,
                       [SelectForUpdate matchedTokenId, UpdateTokenUsed (tok_id token),
                        InsertTransaction, InsertAttempt]))))"

text \<open>The callback handed to \<open>db.transaction\<close>: the candidate query, the verification
  loop with its hashes, then the locked part. An id is never falsy, so \<open>!matchedTokenId\<close> holds exactly
  when the loop found no match. \<open>metadata\<close> is the text \<open>JSON.stringify\<close> gives.\<close>

definition redeem_callback ::
  "externals \<Rightarrow> token_config \<Rightarrow> redeem_env \<Rightarrow> string \<Rightarrow> string \<Rightarrow> string \<Rightarrow> string \<Rightarrow> store
     \<Rightarrow> (error + redeem_outcome) \<times> store \<times> event list" where
  "redeem_callback ext cfg env fullToken pfx agentId metadata db =
     (case verify_candidates ext cfg fullToken (candidateTokens db pfx (now_lookup env)) of
        Inl e \<Rightarrow>
          (Inl e, db,
           SelectCandidates pfx (now_lookup env)
             # verify_trace ext cfg fullToken (candidateTokens db pfx (now_lookup env)))
      | Inr None \<Rightarrow>
          (Inr INVALID, db,
           SelectCandidates pfx (now_lookup env)
             # verify_trace ext cfg fullToken (candidateTokens db pfx (now_lookup env)))
      | Inr (Some matchedTokenId) \<Rightarrow>
          (case redeem_locked env matchedTokenId agentId metadata db of
             (out, db', tr) \<Rightarrow>
               (out, db',
                SelectCandidates pfx (now_lookup env)
                  # verify_trace ext cfg fullToken (candidateTokens db pfx (now_lookup env))
                  @ tr)))"

text \<open>\<open>redeemWithdrawalToken(fullToken, agentId, metadata)\<close>. An absent \<open>agentId\<close> is
  \<open>None\<close>. The destructuring \<open>[prefix, coreToken] = fullToken.split('-')\<close> takes the first
  two segments.\<close>

definition redeemWithdrawalToken ::
  "externals \<Rightarrow> token_config \<Rightarrow> redeem_env \<Rightarrow> string \<Rightarrow> string option \<Rightarrow> string \<Rightarrow> store
     \<Rightarrow> (error + redeem_outcome) \<times> store \<times> event list" where
  "redeemWithdrawalToken ext cfg env fullToken agentId metadata db =
     (if fullToken = [] \<or> CHR ''-'' \<notin> set fullToken \<or> agentId = None \<or> agentId = Some []
      then (Inr INVALID, db, [])
      else
        (case split_on CHR ''-'' fullToken of
           pfx # coreToken # _ \<Rightarrow>
             if length pfx \<noteq> 4 \<or> length coreToken \<noteq> 8 then (Inr INVALID, db, [])
             else transaction ''repeatable read''
                    (redeem_callback ext cfg env fullToken pfx (the agentId) metadata) db
         | _ \<Rightarrow> (Inl TypeError, db, [])))"

section \<open>Sequences of calls\<close>








text \<open>Whether a transaction is open when the event \<open>e\<close> of the trace is issued.\<close>

fun is_begin :: "event \<Rightarrow> bool" where
  "is_begin (TxBegin lvl) = True"
| "is_begin e = False"

definition inside_transaction :: "event list \<Rightarrow> event \<Rightarrow> bool" where
  "inside_transaction tr e = (e \<in> set tr \<and> list_ex is_begin (takeWhile (\<lambda>x. x \<noteq> e) tr))"

section \<open>Sample values\<close>

text \<open>A stand-in for the library: the identity as the hash, and a length test as the
  uuid test. A store with one account, the draws of two rounds and the clock readings of
  three redemptions.\<close>

definition toy_ext :: externals where
  "toy_ext = \<lparr>sha256 = (\<lambda>b. b), joi_uuid = (\<lambda>s. length s = 36)\<rparr>"

definition toy_cfg :: token_config where
  "toy_cfg = \<lparr>pepper = ''0123456789abcdef'', expirySeconds = 300\<rparr>"

definition acct_A :: string where
  "acct_A = ''123e4567-e89b-12d3-a456-426614174000''"

definition acct_B :: string where
  "acct_B = ''00000000-0000-4000-8000-000000000000''"

definition store0 :: store where
  "store0 = \<lparr>accounts = [acct_A], tokens = [], transactions = [], redemption_attempts = []\<rparr>"

definition draw0 :: gen_draw where
  "draw0 = \<lparr>core_rnd = (\<lambda>i. i), prefix_rnd = (\<lambda>i. 26 + i), salt_rnd = (\<lambda>i. 65),
            date_now = 1000, db_uuid = 1, db_now = 1000\<rparr>"

definition draw1 :: gen_draw where
  "draw1 = \<lparr>core_rnd = (\<lambda>i. 8 + i), prefix_rnd = (\<lambda>i. 26 + i), salt_rnd = (\<lambda>i. 66),
            date_now = 1005, db_uuid = 2, db_now = 1005\<rparr>"

definition tokenA :: token_row where
  "tokenA = \<lparr>tok_id = 1, tok_token_hash = ''0123456789abcdef0123-ABCDEFGHAAAAAAAAAAAAAAAA'',
             tok_salt = ''AAAAAAAAAAAAAAAA'', tok_prefix = ''0123'', tok_account_id = acct_A,
             tok_amount = 100, tok_status = ACTIVE, tok_created_at = 1000,
             tok_expires_at = 301000, tok_used_at = None\<rparr>"

definition store1 :: store where
  "store1 = store0\<lparr>tokens := [tokenA]\<rparr>"

definition env0 :: redeem_env where
  "env0 = \<lparr>now_lookup = 2000, now_lock = 2001, now_used = 2002, new_txn_id = 7,
           new_attempt_id = 9\<rparr>"

definition env1 :: redeem_env where
  "env1 = \<lparr>now_lookup = 3000, now_lock = 3001, now_used = 3002, new_txn_id = 8,
           new_attempt_id = 10\<rparr>"

definition env_late :: redeem_env where
  "env_late = \<lparr>now_lookup = 300999, now_lock = 301000, now_used = 301001, new_txn_id = 7,
               new_attempt_id = 9\<rparr>"

definition store2 :: store where
  "store2 =
     \<lparr>accounts = [acct_A],
      tokens = [tokenA\<lparr>tok_status := USED, tok_used_at := Some 2002\<rparr>],
      transactions = [\<lparr>txn_id = 7, txn_account_id = acct_A, txn_token_id = 1,
                       txn_type = WITHDRAWAL, txn_amount = 100, txn_status = TX_SUCCESS\<rparr>],
      redemption_attempts = [\<lparr>att_id = 9, att_token_id = 1, att_agent_id = ''atm-1'',
                              att_result = ATT_SUCCESS, att_metadata = ''{}''\<rparr>]\<rparr>"

definition env_after :: redeem_env where
  "env_after = \<lparr>now_lookup = 301001, now_lock = 301002, now_used = 301003, new_txn_id = 7,
                new_attempt_id = 9\<rparr>"

definition env_clash :: redeem_env where
  "env_clash = \<lparr>now_lookup = 3000, now_lock = 3001, now_used = 3002, new_txn_id = 8,
                new_attempt_id = 9\<rparr>"

definition tokenB :: token_row where
  "tokenB = \<lparr>tok_id = 2, tok_token_hash = ''0123456789abcdef0123-IJKLMNOPBBBBBBBBBBBBBBBB'',
             tok_salt = ''BBBBBBBBBBBBBBBB'', tok_prefix = ''0123'', tok_account_id = acct_A,
             tok_amount = 100, tok_status = ACTIVE, tok_created_at = 1005,
             tok_expires_at = 301005, tok_used_at = None\<rparr>"

definition store3 :: store where
  "store3 = store2\<lparr>tokens := tokens store2 @ [tokenB]\<rparr>"

section \<open>Properties\<close>

subsection \<open>Traces of a redemption\<close>

lemma redeem_callback_trace:
  "redeem_callback ext cfg env fullToken pfx agentId metadata db = (out, db', tr) \<Longrightarrow>
     \<exists>rest. tr = SelectCandidates pfx (now_lookup env) # rest"
  by (auto simp: redeem_callback_def split: sum.splits option.splits prod.splits)

lemma transaction_trace:
  "transaction lvl cb db = (out, db', tr) \<Longrightarrow>
     \<exists>out0 db0 tr0. cb db = (out0, db0, tr0)
        \<and> (tr = TxBegin lvl # tr0 @ [TxCommit] \<or> tr = TxBegin lvl # tr0 @ [TxRollback])"
  by (auto simp: transaction_def split: sum.splits prod.splits)

subsection \<open>The cases of a redemption\<close>

lemma split_on_nonempty: "split_on c s \<noteq> []"
  by (induction s) (auto split: list.splits)

lemma split_on_two:
  "c \<in> set s \<Longrightarrow> \<exists>a b rest. split_on c s = a # b # rest"
proof (induction s)
  case Nil
  then show ?case by simp
next
  case (Cons x xs)
  show ?case
  proof (cases "x = c")
    case True
    then show ?thesis using split_on_nonempty [of c xs] by (cases "split_on c xs") auto
  next
    case False
    with Cons obtain a b rest where "split_on c xs = a # b # rest" by auto
    with False show ?thesis by simp
  qed
qed

lemma find_id:
  "first_for_update db m = Some t \<Longrightarrow> tok_id t = m \<and> t \<in> set (tokens db)"
  by (auto simp: first_for_update_def find_Some_iff)

lemma redeem_cases:
  assumes "redeemWithdrawalToken ext cfg env fullToken agentId metadata db = (out, db', tr)"
  shows "(out = Inr INVALID \<and> db' = db \<and> tr = [])
       \<or> (\<exists>pfx coreToken rest agent.
             split_on CHR ''-'' fullToken = pfx # coreToken # rest
           \<and> length pfx = 4 \<and> length coreToken = 8 \<and> agentId = Some agent \<and> agent \<noteq> []
           \<and> transaction ''repeatable read''
                (redeem_callback ext cfg env fullToken pfx agent metadata) db = (out, db', tr))"
proof (cases "fullToken = [] \<or> CHR ''-'' \<notin> set fullToken \<or> agentId = None \<or> agentId = Some []")
  case True
  with assms show ?thesis by (auto simp: redeemWithdrawalToken_def)
next
  case False
  then obtain a b rest where s: "split_on CHR ''-'' fullToken = a # b # rest"
    using split_on_two by blast
  from False obtain agent where ag: "agentId = Some agent" "agent \<noteq> []" by auto
  show ?thesis
  proof (cases "length a \<noteq> 4 \<or> length b \<noteq> 8")
    case True
    with assms False ag show ?thesis by (simp add: redeemWithdrawalToken_def s)
  next
    case lens: False
    with assms False ag show ?thesis by (simp add: redeemWithdrawalToken_def s)
  qed
qed

lemma locked_cases:
  assumes "redeem_locked env m agentId metadata db = (out, db', tr)"
  shows "(out = Inr EXPIRED_OR_USED \<and> db' = db \<and> tr = [SelectForUpdate m]
          \<and> (\<forall>t. first_for_update db m = Some t \<longrightarrow>
                 tok_status t \<noteq> ACTIVE \<or> tok_expires_at t \<le> now_lock env))
       \<or> (\<exists>t. first_for_update db m = Some t \<and> tok_status t = ACTIVE
              \<and> now_lock env < tok_expires_at t
              \<and> (\<exists>err. out = Inl (Storage err)
                    \<and> (tr = [SelectForUpdate m, UpdateTokenUsed m, InsertTransaction]
                        \<or> tr = [SelectForUpdate m, UpdateTokenUsed m, InsertTransaction, InsertAttempt])))
       \<or> (\<exists>t db2. first_for_update db m = Some t \<and> tok_status t = ACTIVE
              \<and> now_lock env < tok_expires_at t
              \<and> insert_transaction (update_used db m (now_used env))
                    \<lparr>txn_id = new_txn_id env, txn_account_id = tok_account_id t,
                     txn_token_id = m, txn_type = WITHDRAWAL,
                     txn_amount = tok_amount t, txn_status = TX_SUCCESS\<rparr> = Inr db2
              \<and> insert_attempt db2
                    \<lparr>att_id = new_attempt_id env, att_token_id = m,
                     att_agent_id = agentId, att_result = ATT_SUCCESS,
                     att_metadata = metadata\<rparr> = Inr db'
              \<and> out = Inr (SUCCESS m (new_txn_id env))
              \<and> tr = [SelectForUpdate m, UpdateTokenUsed m, InsertTransaction, InsertAttempt])"
proof (cases "first_for_update db m")
  case None
  with assms show ?thesis by (simp add: redeem_locked_def)
next
  case (Some t)
  then have i: "tok_id t = m" using find_id by blast
  show ?thesis
  proof (cases "tok_status t \<noteq> ACTIVE \<or> now_lock env \<ge> tok_expires_at t")
    case True
    with assms Some show ?thesis by (auto simp: redeem_locked_def)
  next
    case False
    with assms Some i show ?thesis
      by (auto simp: redeem_locked_def Let_def split: sum.splits)
  qed
qed

lemma callback_cases:
  assumes "redeem_callback ext cfg env fullToken pfx agentId metadata db = (out, db', tr)"
  shows "(\<exists>e. verify_candidates ext cfg fullToken (candidateTokens db pfx (now_lookup env)) = Inl e
            \<and> out = Inl e
            \<and> tr = SelectCandidates pfx (now_lookup env)
                   # verify_trace ext cfg fullToken (candidateTokens db pfx (now_lookup env)))
       \<or> (verify_candidates ext cfg fullToken (candidateTokens db pfx (now_lookup env)) = Inr None
            \<and> out = Inr INVALID \<and> db' = db
            \<and> tr = SelectCandidates pfx (now_lookup env)
                   # verify_trace ext cfg fullToken (candidateTokens db pfx (now_lookup env)))
       \<or> (\<exists>m tr'. verify_candidates ext cfg fullToken (candidateTokens db pfx (now_lookup env))
                     = Inr (Some m)
            \<and> redeem_locked env m agentId metadata db = (out, db', tr')
            \<and> tr = SelectCandidates pfx (now_lookup env)
                   # verify_trace ext cfg fullToken (candidateTokens db pfx (now_lookup env))
                   @ tr')"
  using assms
  by (auto simp: redeem_callback_def split: sum.splits option.splits prod.splits)

lemma verify_Some:
  "verify_candidates ext cfg fullToken ts = Inr (Some m) \<Longrightarrow>
     \<exists>t \<in> set ts. tok_id t = m
        \<and> timingSafeEqual (hashToken ext cfg fullToken (tok_salt t)) (tok_token_hash t) = Inr True"
  by (induction ts) (auto split: sum.splits bool.splits)

lemma verify_None:
  "verify_candidates ext cfg fullToken ts = Inr None \<longleftrightarrow>
     (\<forall>t \<in> set ts.
        timingSafeEqual (hashToken ext cfg fullToken (tok_salt t)) (tok_token_hash t) = Inr False)"
  by (induction ts) (auto split: sum.splits bool.splits)

lemma insert_transaction_Inr:
  "insert_transaction db r = Inr db2 \<Longrightarrow> db2 = db\<lparr>transactions := transactions db @ [r]\<rparr>"
  by (auto simp: insert_transaction_def split: if_splits)

lemma insert_attempt_Inr:
  "insert_attempt db r = Inr db2 \<Longrightarrow>
     db2 = db\<lparr>redemption_attempts := redemption_attempts db @ [r]\<rparr>"
  by (auto simp: insert_attempt_def split: if_splits)

lemma redeem_unchanged:
  assumes "redeemWithdrawalToken ext cfg env fullToken agentId metadata db = (out, db', tr)"
    and "\<And>tid x. out \<noteq> Inr (SUCCESS tid x)"
  shows "db' = db"
proof -
  from redeem_cases [OF assms(1)] show ?thesis
  proof
    assume "out = Inr INVALID \<and> db' = db \<and> tr = []"
    then show ?thesis by simp
  next
    assume "\<exists>pfx coreToken rest agent.
             split_on CHR ''-'' fullToken = pfx # coreToken # rest
           \<and> length pfx = 4 \<and> length coreToken = 8 \<and> agentId = Some agent \<and> agent \<noteq> []
           \<and> transaction ''repeatable read''
                (redeem_callback ext cfg env fullToken pfx agent metadata) db = (out, db', tr)"
    then obtain pfx agent where
      t: "transaction ''repeatable read''
            (redeem_callback ext cfg env fullToken pfx agent metadata) db = (out, db', tr)"
      by blast
    obtain out0 db0 tr0 where
      c: "redeem_callback ext cfg env fullToken pfx agent metadata db = (out0, db0, tr0)"
      by (metis prod_cases3)
    show ?thesis
    proof (cases out0)
      case (Inl e)
      with t c show ?thesis by (simp add: transaction_def)
    next
      case (Inr v)
      with t c have o: "out = Inr v" "db' = db0" by (simp_all add: transaction_def)
      from callback_cases [OF c] locked_cases assms(2) o Inr show ?thesis
        by (metis sum.simps(4))
    qed
  qed
qed

lemma redeem_success:
  assumes "redeemWithdrawalToken ext cfg env fullToken agentId metadata db
             = (Inr (SUCCESS tid x), db', tr)"
  shows "\<exists>pfx agent t.
           agentId = Some agent
         \<and> verify_candidates ext cfg fullToken (candidateTokens db pfx (now_lookup env))
             = Inr (Some tid)
         \<and> first_for_update db tid = Some t \<and> tok_status t = ACTIVE
         \<and> now_lock env < tok_expires_at t
         \<and> x = new_txn_id env
         \<and> db' = db\<lparr>tokens := tokens (update_used db tid (now_used env)),
                     transactions := transactions db @
                       [\<lparr>txn_id = new_txn_id env, txn_account_id = tok_account_id t,
                         txn_token_id = tid, txn_type = WITHDRAWAL,
                         txn_amount = tok_amount t, txn_status = TX_SUCCESS\<rparr>],
                     redemption_attempts := redemption_attempts db @
                       [\<lparr>att_id = new_attempt_id env, att_token_id = tid,
                         att_agent_id = agent, att_result = ATT_SUCCESS,
                         att_metadata = metadata\<rparr>]\<rparr>
         \<and> tr = TxBegin ''repeatable read'' # SelectCandidates pfx (now_lookup env)
                # verify_trace ext cfg fullToken (candidateTokens db pfx (now_lookup env))
                @ [SelectForUpdate tid, UpdateTokenUsed tid, InsertTransaction, InsertAttempt,
                   TxCommit]"
proof -
  from redeem_cases [OF assms] obtain pfx agent where
    ag: "agentId = Some agent" and
    t: "transaction ''repeatable read''
          (redeem_callback ext cfg env fullToken pfx agent metadata) db
        = (Inr (SUCCESS tid x), db', tr)"
    by blast
  obtain out0 db0 tr0 where
    c: "redeem_callback ext cfg env fullToken pfx agent metadata db = (out0, db0, tr0)"
    by (metis prod_cases3)
  with t have o: "out0 = Inr (SUCCESS tid x)" "db0 = db'" "tr = TxBegin ''repeatable read'' # tr0 @ [TxCommit]"
    by (auto simp: transaction_def split: sum.splits)
  from callback_cases [OF c] o obtain m tr' where
    v: "verify_candidates ext cfg fullToken (candidateTokens db pfx (now_lookup env)) = Inr (Some m)"
    and l: "redeem_locked env m agent metadata db = (Inr (SUCCESS tid x), db', tr')"
    and tr0: "tr0 = SelectCandidates pfx (now_lookup env)
                 # verify_trace ext cfg fullToken (candidateTokens db pfx (now_lookup env)) @ tr'"
    by auto
  from locked_cases [OF l] obtain t db2 where
    f: "first_for_update db m = Some t" "tok_status t = ACTIVE" "now_lock env < tok_expires_at t"
    and i1: "insert_transaction (update_used db m (now_used env))
                    \<lparr>txn_id = new_txn_id env, txn_account_id = tok_account_id t,
                     txn_token_id = m, txn_type = WITHDRAWAL,
                     txn_amount = tok_amount t, txn_status = TX_SUCCESS\<rparr> = Inr db2"
    and i2: "insert_attempt db2
                    \<lparr>att_id = new_attempt_id env, att_token_id = m,
                     att_agent_id = agent, att_result = ATT_SUCCESS,
                     att_metadata = metadata\<rparr> = Inr db'"
    and e: "m = tid" "x = new_txn_id env"
    and tr': "tr' = [SelectForUpdate m, UpdateTokenUsed m, InsertTransaction, InsertAttempt]"
    by auto
  have "db' = db\<lparr>tokens := tokens (update_used db tid (now_used env)),
                     transactions := transactions db @
                       [\<lparr>txn_id = new_txn_id env, txn_account_id = tok_account_id t,
                         txn_token_id = tid, txn_type = WITHDRAWAL,
                         txn_amount = tok_amount t, txn_status = TX_SUCCESS\<rparr>],
                     redemption_attempts := redemption_attempts db @
                       [\<lparr>att_id = new_attempt_id env, att_token_id = tid,
                         att_agent_id = agent, att_result = ATT_SUCCESS,
                         att_metadata = metadata\<rparr>]\<rparr>"
    using insert_transaction_Inr [OF i1] insert_attempt_Inr [OF i2] e
    by (simp add: update_used_def)
  with ag v f e o tr0 tr' show ?thesis by auto
qed

lemma verify_trace_hashes:
  "\<exists>k \<le> length ts. verify_trace ext cfg fullToken ts = replicate k HashVerify"
proof (induction ts)
  case Nil
  then show ?case by simp
next
  case (Cons t ts)
  then obtain k where k: "k \<le> length ts" "verify_trace ext cfg fullToken ts = replicate k HashVerify"
    by blast
  show ?case
  proof (cases "timingSafeEqual (hashToken ext cfg fullToken (tok_salt t)) (tok_token_hash t)
                  = Inr False")
    case True
    with k have "verify_trace ext cfg fullToken (t # ts) = replicate (Suc k) HashVerify" by simp
    with k(1) show ?thesis by (intro exI [of _ "Suc k"]) simp
  next
    case False
    then have "verify_trace ext cfg fullToken (t # ts) = replicate 1 HashVerify"
      by (auto split: sum.splits bool.splits)
    then show ?thesis by (intro exI [of _ 1]) simp
  qed
qed

lemma redeem_trace_shape:
  assumes "redeemWithdrawalToken ext cfg env fullToken agentId metadata db = (out, db', tr)"
  shows "tr = []
       \<or> (\<exists>pfx m n. tr = TxBegin ''repeatable read'' # SelectCandidates pfx (now_lookup env)
                          # verify_trace ext cfg fullToken (candidateTokens db pfx (now_lookup env))
                          @ take n [SelectForUpdate m, UpdateTokenUsed m, InsertTransaction, InsertAttempt]
                          @ [if isl out then TxRollback else TxCommit])"
proof -
  from redeem_cases [OF assms] show ?thesis
  proof
    assume "out = Inr INVALID \<and> db' = db \<and> tr = []"
    then show ?thesis by simp
  next
    assume "\<exists>pfx coreToken rest agent.
             split_on CHR ''-'' fullToken = pfx # coreToken # rest
           \<and> length pfx = 4 \<and> length coreToken = 8 \<and> agentId = Some agent \<and> agent \<noteq> []
           \<and> transaction ''repeatable read''
                (redeem_callback ext cfg env fullToken pfx agent metadata) db = (out, db', tr)"
    then obtain pfx agent where
      t: "transaction ''repeatable read''
            (redeem_callback ext cfg env fullToken pfx agent metadata) db = (out, db', tr)"
      by blast
    obtain out0 db0 tr0 where
      c: "redeem_callback ext cfg env fullToken pfx agent metadata db = (out0, db0, tr0)"
      by (metis prod_cases3)
    with t have o: "out = out0"
      and tr: "tr = TxBegin ''repeatable read'' # tr0 @ [if isl out then TxRollback else TxCommit]"
      by (auto simp: transaction_def split: sum.splits)
    let ?steps = "\<lambda>m. [SelectForUpdate m, UpdateTokenUsed m, InsertTransaction, InsertAttempt]"
    let ?looked = "SelectCandidates pfx (now_lookup env)
                     # verify_trace ext cfg fullToken (candidateTokens db pfx (now_lookup env))"
    have "\<exists>m n. tr0 = ?looked @ take n (?steps m)"
      using callback_cases [OF c]
    proof (elim disjE exE conjE)
      fix e assume "tr0 = ?looked"
      then have "tr0 = ?looked @ take 0 (?steps 0)" by simp
      then show ?thesis by blast
    next
      assume "tr0 = ?looked"
      then have "tr0 = ?looked @ take 0 (?steps 0)" by simp
      then show ?thesis by blast
    next
      fix m tr'
      assume l: "redeem_locked env m agent metadata db = (out0, db0, tr')"
        and tr0: "tr0 = SelectCandidates pfx (now_lookup env)
                 # verify_trace ext cfg fullToken (candidateTokens db pfx (now_lookup env)) @ tr'"
      from locked_cases [OF l]
      have "tr' = take 1 (?steps m) \<or> tr' = take 3 (?steps m) \<or> tr' = take 4 (?steps m)"
        by auto
      then obtain n where "tr' = take n (?steps m)" by blast
      with tr0 have "tr0 = ?looked @ take n (?steps m)" by simp
      then show ?thesis by blast
    qed
    then obtain m n where "tr0 = ?looked @ take n (?steps m)" by blast
    with tr have "tr = TxBegin ''repeatable read'' # ?looked @ take n (?steps m)
                       @ [if isl out then TxRollback else TxCommit]"
      by simp
    then show ?thesis by auto
  qed
qed

lemma redeem_empty_trace:
  assumes "redeemWithdrawalToken ext cfg env fullToken agentId metadata db = (out, db', [])"
  shows "out = Inr INVALID \<and> db' = db"
  using redeem_cases [OF assms] transaction_trace by fastforce

lemma find_map_used:
  "find (\<lambda>t. tok_id t = tid) ts = Some t \<Longrightarrow> tok_status t = ACTIVE \<Longrightarrow>
     find (\<lambda>t. tok_id t = tid)
       (map (\<lambda>t. if tok_id t = tid \<and> tok_status t = ACTIVE
                 then t\<lparr>tok_status := USED, tok_used_at := Some now\<rparr> else t) ts)
     = Some (t\<lparr>tok_status := USED, tok_used_at := Some now\<rparr>)"
  by (induction ts) (auto split: if_splits)

lemma candidate_in_store:
  "t \<in> set (candidateTokens db pfx now) \<Longrightarrow>
     t \<in> set (tokens db) \<and> tok_prefix t = pfx \<and> tok_status t = ACTIVE \<and> now < tok_expires_at t"
  by (simp add: candidateTokens_def)

subsection \<open>The rounds of the generation loop\<close>

lemma collision_code: "err_code err = ''23505'' \<longleftrightarrow> err = UniqueViolation"
  by (cases err) auto

lemma count_inserts: "length (filter (\<lambda>e. e = InsertToken) (concat (replicate n attempt_events))) = n"
  by (induction n) (auto simp: attempt_events_def)

lemma generation_loop_rounds:
  assumes "generation_loop ext cfg draws accountId a retries db = (out, db', tr)"
    and "retries < MAX_RETRIES"
  shows "\<exists>n. 1 \<le> n \<and> retries + n \<le> MAX_RETRIES
           \<and> tr = concat (replicate n attempt_events)
           \<and> (\<forall>j < n - 1. generation_attempt ext cfg (draws (retries + j)) accountId a db
                             = Inl UniqueViolation)
           \<and> (\<forall>r db1. generation_attempt ext cfg (draws (retries + (n - 1))) accountId a db
                          = Inr (r, db1) \<longrightarrow> out = Inr (Some r) \<and> db' = db1)
           \<and> (generation_attempt ext cfg (draws (retries + (n - 1))) accountId a db
                 = Inl UniqueViolation \<longrightarrow>
                 retries + n = MAX_RETRIES \<and> db' = db
                 \<and> out = Inl (JsError ''Failed to generate unique token after maximum retries''))
           \<and> (\<forall>err. generation_attempt ext cfg (draws (retries + (n - 1))) accountId a db = Inl err
                      \<and> err \<noteq> UniqueViolation \<longrightarrow> out = Inl (Storage err) \<and> db' = db)"
  using assms
proof (induction ext cfg draws accountId a retries db arbitrary: out db' tr
       rule: generation_loop.induct)
  case (1 ext cfg draws accountId a retries db)
  note run = "1.prems"(1) and lt = "1.prems"(2)
  show ?case
  proof (cases "generation_attempt ext cfg (draws retries) accountId a db")
    case (Inr p)
    obtain r db1 where p: "p = (r, db1)" by (cases p)
    from run lt Inr p have "out = Inr (Some r)" "db' = db1" "tr = attempt_events"
      by (simp_all add: generation_loop.simps [of _ _ _ _ _ retries])
    with Inr p lt show ?thesis
      by (intro exI [of _ 1]) simp
  next
    case (Inl err)
    show ?thesis
    proof (cases "err = UniqueViolation")
      case False
      with run lt Inl have "out = Inl (Storage err)" "db' = db" "tr = attempt_events"
        by (simp_all add: generation_loop.simps [of _ _ _ _ _ retries] collision_code)
      with Inl False lt show ?thesis
        by (intro exI [of _ 1]) simp
    next
      case True
      show ?thesis
      proof (cases "retries + 1 \<ge> MAX_RETRIES")
        case last: True
        with run lt Inl True have
          "out = Inl (JsError ''Failed to generate unique token after maximum retries'')"
          "db' = db" "tr = attempt_events"
          by (simp_all add: generation_loop.simps [of _ _ _ _ _ retries])
        with Inl True lt last show ?thesis
          by (intro exI [of _ 1]) simp
      next
        case more: False
        obtain out1 db1 tr1 where
          rec: "generation_loop ext cfg draws accountId a (retries + 1) db = (out1, db1, tr1)"
          by (metis prod_cases3)
        with run lt Inl True more have o: "out = out1" "db' = db1" "tr = attempt_events @ tr1"
          by (simp_all add: generation_loop.simps [of _ _ _ _ _ retries])
        from more have lt1: "retries + 1 < MAX_RETRIES" by simp
        have code: "err_code err = ''23505''" using True by simp
        from "1.IH" [OF lt Inl code more rec lt1] obtain n where
          n1: "1 \<le> n" and n2: "retries + 1 + n \<le> MAX_RETRIES"
          and n3: "tr1 = concat (replicate n attempt_events)"
          and n4: "\<forall>j < n - 1. generation_attempt ext cfg (draws (retries + 1 + j)) accountId a db
                             = Inl UniqueViolation"
          and n5: "\<forall>r db2. generation_attempt ext cfg (draws (retries + 1 + (n - 1))) accountId a db
                          = Inr (r, db2) \<longrightarrow> out1 = Inr (Some r) \<and> db1 = db2"
          and n6: "generation_attempt ext cfg (draws (retries + 1 + (n - 1))) accountId a db
                 = Inl UniqueViolation \<longrightarrow>
                 retries + 1 + n = MAX_RETRIES \<and> db1 = db
                 \<and> out1 = Inl (JsError ''Failed to generate unique token after maximum retries'')"
          and n7: "\<forall>err. generation_attempt ext cfg (draws (retries + 1 + (n - 1))) accountId a db = Inl err
                      \<and> err \<noteq> UniqueViolation \<longrightarrow> out1 = Inl (Storage err) \<and> db1 = db"
          by blast
        have pre: "\<forall>j < Suc n - 1. generation_attempt ext cfg (draws (retries + j)) accountId a db
                             = Inl UniqueViolation"
        proof (intro allI impI)
          fix j assume j: "j < Suc n - 1"
          show "generation_attempt ext cfg (draws (retries + j)) accountId a db = Inl UniqueViolation"
          proof (cases j)
            case 0
            with Inl True show ?thesis by simp
          next
            case (Suc i)
            with j n4 have
              "generation_attempt ext cfg (draws (retries + 1 + i)) accountId a db = Inl UniqueViolation"
              by simp
            with Suc show ?thesis by simp
          qed
        qed
        from n1 have idx: "retries + (Suc n - 1) = retries + 1 + (n - 1)" by simp
        from n1 n2 n3 o have head: "1 \<le> Suc n" "retries + Suc n \<le> MAX_RETRIES"
          "tr = concat (replicate (Suc n) attempt_events)"
          by simp_all
        from n2 have sum: "retries + Suc n = MAX_RETRIES \<longleftrightarrow> retries + 1 + n = MAX_RETRIES"
          by simp
        show ?thesis
          using head pre n5 n6 n7 o unfolding idx [symmetric] sum [symmetric]
          by (intro exI [of _ "Suc n"]) blast
      qed
    qed
  qed
qed

subsection \<open>What the calls do to the store\<close>






lemma update_used_ids:
  "map tok_id (tokens (update_used db m now)) = map tok_id (tokens db)"
  by (simp add: update_used_def comp_def)











lemma update_used_active:
  assumes "t' \<in> set (tokens (update_used db tid now))" and "tok_status t' = ACTIVE"
  shows "t' \<in> set (tokens db) \<and> tok_id t' \<noteq> tid"
proof -
  from assms(1) obtain t0 where
    t0: "t0 \<in> set (tokens db)"
    and e: "t' = (if tok_id t0 = tid \<and> tok_status t0 = ACTIVE
                 then t0\<lparr>tok_status := USED, tok_used_at := Some now\<rparr> else t0)"
    by (auto simp: update_used_def)
  show ?thesis
  proof (cases "tok_id t0 = tid \<and> tok_status t0 = ACTIVE")
    case True
    with e assms(2) show ?thesis by simp
  next
    case False
    with e have "t' = t0" by simp
    with False t0 assms(2) show ?thesis by auto
  qed
qed




subsection \<open>Generated tokens pass Step 0\<close>

lemma charset_length: "length charset = 36"
  by (simp add: charset_def)

lemma charset_no_dash: "CHR ''-'' \<notin> set charset"
  by (simp add: charset_def)

lemma random_token_length: "length (generateRandomToken rnd n) = n"
  by (induction n) simp_all

lemma random_token_charset: "set (generateRandomToken rnd n) \<subseteq> set charset"
proof (induction n)
  case 0
  then show ?case by simp
next
  case (Suc n)
  have "randomInt 0 (length charset) (rnd n) < length charset"
    by (simp add: randomInt_def charset_length)
  then have "charset ! randomInt 0 (length charset) (rnd n) \<in> set charset"
    by (rule nth_mem)
  with Suc show ?case by simp
qed

lemma random_token_no_dash: "CHR ''-'' \<notin> set (generateRandomToken rnd n)"
  using random_token_charset charset_no_dash by blast

lemma split_on_none: "c \<notin> set s \<Longrightarrow> split_on c s = [s]"
  by (induction s) auto

lemma split_on_first: "c \<notin> set p \<Longrightarrow> split_on c (p @ c # rest) = p # split_on c rest"
  by (induction p) auto

lemma redeem_step0_pass:
  assumes "length pfx = 4" "length core = 8" "CHR ''-'' \<notin> set pfx" "CHR ''-'' \<notin> set core"
    and "agent \<noteq> []"
  shows "redeemWithdrawalToken ext cfg env (pfx @ ''-'' @ core) (Some agent) metadata db
         = transaction ''repeatable read''
             (redeem_callback ext cfg env (pfx @ ''-'' @ core) pfx agent metadata) db"
proof -
  have "split_on CHR ''-'' (pfx @ ''-'' @ core) = [pfx, core]"
    using split_on_first [OF assms(3), of core] split_on_none [OF assms(4)] by simp
  with assms show ?thesis
    by (simp add: redeemWithdrawalToken_def)
qed

lemma verify_skip:
  "\<forall>t \<in> set ts. timingSafeEqual (hashToken ext cfg fullToken (tok_salt t)) (tok_token_hash t)
                    = Inr False \<Longrightarrow>
     verify_candidates ext cfg fullToken (ts @ us) = verify_candidates ext cfg fullToken us"
  by (induction ts) simp_all

lemma find_append_fresh:
  "i \<notin> set (map tok_id ts) \<Longrightarrow> tok_id r = i \<Longrightarrow> find (\<lambda>t. tok_id t = i) (ts @ [r]) = Some r"
  by (induction ts) auto

lemma generate_success:
  assumes "generateWithdrawalToken ext cfg draws accountId amount db = (Inr (Some g), db1, tr)"
  shows "\<exists>a d. validateGenerationParams ext accountId amount = Inr a
              \<and> generation_attempt ext cfg d accountId a db = Inr (g, db1)"
proof (cases "validateGenerationParams ext accountId amount")
  case (Inl e)
  with assms show ?thesis by (simp add: generateWithdrawalToken_def)
next
  case (Inr a)
  with assms have loop: "generation_loop ext cfg draws accountId a 0 db = (Inr (Some g), db1, tr)"
    by (simp add: generateWithdrawalToken_def)
  have lt: "0 < MAX_RETRIES" by (simp add: MAX_RETRIES_def)
  from generation_loop_rounds [OF loop lt] obtain n where
    s: "\<forall>r db2. generation_attempt ext cfg (draws (0 + (n - 1))) accountId a db = Inr (r, db2)
                  \<longrightarrow> Inr (Some g) = (Inr (Some r) :: error + gen_result option) \<and> db1 = db2"
    and c: "generation_attempt ext cfg (draws (0 + (n - 1))) accountId a db = Inl UniqueViolation
                  \<longrightarrow> 0 + n = MAX_RETRIES \<and> db1 = db
                    \<and> Inr (Some g) = (Inl (JsError ''Failed to generate unique token after maximum retries'') :: error + gen_result option)"
    and e: "\<forall>err. generation_attempt ext cfg (draws (0 + (n - 1))) accountId a db = Inl err
                      \<and> err \<noteq> UniqueViolation \<longrightarrow> Inr (Some g) = (Inl (Storage err) :: error + gen_result option) \<and> db1 = db"
    by blast
  show ?thesis
  proof (cases "generation_attempt ext cfg (draws (0 + (n - 1))) accountId a db")
    case (Inl err)
    with c e show ?thesis by (cases "err = UniqueViolation") auto
  next
    case at: (Inr p)
    obtain r db2 where "p = (r, db2)" by (cases p)
    with at s have "generation_attempt ext cfg (draws (0 + (n - 1))) accountId a db = Inr (g, db1)"
      by auto
    with Inr show ?thesis by blast
  qed
qed

lemma valid_amount: "validateGenerationParams ext accountId (Num n) = Inr a \<Longrightarrow> a = n"
  by (auto simp: validateGenerationParams_def split: if_splits)

lemma generation_attempt_row:
  assumes "generation_attempt ext cfg d accountId a db = Inr (g, db1)"
  shows "\<exists>pfx core row.
      pfx = generateRandomToken (prefix_rnd d) 4 \<and> core = generateRandomToken (core_rnd d) 8
    \<and> g_token g = pfx @ ''-'' @ core
    \<and> db1 = db\<lparr>tokens := tokens db @ [row]\<rparr>
    \<and> tok_id row = g_id g \<and> tok_prefix row = pfx \<and> tok_status row = ACTIVE
    \<and> tok_expires_at row = g_expiresAt g \<and> tok_account_id row = accountId
    \<and> tok_amount row = a
    \<and> tok_token_hash row = hashToken ext cfg (g_token g) (tok_salt row)
    \<and> g_id g \<notin> set (map tok_id (tokens db)) \<and> accountId \<in> set (accounts db)
    \<and> 0 < a \<and> numeric_15_2 a"
  using assms
  by (auto simp: generation_attempt_def insert_token_def Let_def split: if_splits)

lemma timingSafeEqual_same: "timingSafeEqual h h = Inr True"
  by (simp add: timingSafeEqual_def)

lemma redeem_pass:
  assumes "split_on CHR ''-'' fullToken = pfx # coreToken # rest"
    and "length pfx = 4" "length coreToken = 8" "agent \<noteq> []"
  shows "redeemWithdrawalToken ext cfg env fullToken (Some agent) metadata db
         = transaction ''repeatable read''
             (redeem_callback ext cfg env fullToken pfx agent metadata) db"
proof -
  have "CHR ''-'' \<in> set fullToken"
    using assms(1) split_on_none [of "CHR ''-''" fullToken] by auto
  then have "fullToken \<noteq> []" by auto
  with \<open>CHR ''-'' \<in> set fullToken\<close> assms show ?thesis
    by (simp add: redeemWithdrawalToken_def)
qed

subsection \<open>Sample runs\<close>

lemma eval_redeem_A:
  "redeemWithdrawalToken toy_ext toy_cfg env0 ''0123-ABCDEFGH'' (Some ''atm-1'') ''{}'' store1
     = (Inr (SUCCESS 1 7), store2,
        [TxBegin ''repeatable read'', SelectCandidates ''0123'' 2000, HashVerify,
         SelectForUpdate 1, UpdateTokenUsed 1, InsertTransaction, InsertAttempt, TxCommit])"
  by code_simp

lemma eval_redeem_A_again:
  "redeemWithdrawalToken toy_ext toy_cfg env1 ''0123-ABCDEFGH'' (Some ''atm-1'') ''{}'' store2
     = (Inr INVALID, store2,
        [TxBegin ''repeatable read'', SelectCandidates ''0123'' 3000, TxCommit])"
  by code_simp

lemma eval_redeem_A_late:
  "redeemWithdrawalToken toy_ext toy_cfg env_late ''0123-ABCDEFGH'' (Some ''atm-1'') ''{}'' store1
     = (Inr EXPIRED_OR_USED, store1,
        [TxBegin ''repeatable read'', SelectCandidates ''0123'' 300999, HashVerify,
         SelectForUpdate 1, TxCommit])"
  by code_simp

lemma eval_redeem_A_after:
  "redeemWithdrawalToken toy_ext toy_cfg env_after ''0123-ABCDEFGH'' (Some ''atm-1'') ''{}'' store1
     = (Inr INVALID, store1,
        [TxBegin ''repeatable read'', SelectCandidates ''0123'' 301001, TxCommit])"
  by code_simp

lemma eval_redeem_B_clash:
  "redeemWithdrawalToken toy_ext toy_cfg env_clash ''0123-IJKLMNOP'' (Some ''atm-2'') ''{}'' store3
     = (Inl (Storage UniqueViolation), store3,
        [TxBegin ''repeatable read'', SelectCandidates ''0123'' 3000, HashVerify,
         SelectForUpdate 2, UpdateTokenUsed 2, InsertTransaction, InsertAttempt, TxRollback])"
  by code_simp

lemma eval_redeem_third_segment:
  "redeemWithdrawalToken toy_ext toy_cfg env0 ''ABCD-12345678-X'' (Some ''atm-1'') ''{}'' store1
     = (Inr INVALID, store1,
        [TxBegin ''repeatable read'', SelectCandidates ''ABCD'' 2000, TxCommit])"
  by code_simp

lemma eval_generate_A:
  "generateWithdrawalToken toy_ext toy_cfg (\<lambda>k. draw0) acct_A (Num 100) store0
     = (Inr (Some \<lparr>g_id = 1, g_token = ''0123-ABCDEFGH'', g_amount = 100, g_expiresAt = 301000\<rparr>),
        store1, attempt_events)"
  by code_simp

lemma eval_generate_exhausted:
  "generateWithdrawalToken toy_ext toy_cfg (\<lambda>k. draw0) acct_A (Num 100) store1
     = (Inl (JsError ''Failed to generate unique token after maximum retries''), store1,
        attempt_events @ attempt_events @ attempt_events)"
  by code_simp

lemma eval_generate_retry:
  "generateWithdrawalToken toy_ext toy_cfg (\<lambda>k. if k = 0 then draw0 else draw1) acct_A (Num 100) store1
     = (Inr (Some \<lparr>g_id = 2, g_token = ''0123-IJKLMNOP'', g_amount = 100, g_expiresAt = 301005\<rparr>),
        store1\<lparr>tokens := [tokenA, tokenB]\<rparr>, attempt_events @ attempt_events)"
  by code_simp

lemma eval_generate_foreign_key:
  "generateWithdrawalToken toy_ext toy_cfg (\<lambda>k. draw1) acct_B (Num 100) store1
     = (Inl (Storage ForeignKeyViolation), store1, attempt_events)"
  by code_simp

lemma eval_valid_A: "validateGenerationParams toy_ext acct_A (Num 100) = Inr 100"
  by code_simp

lemma eval_valid_B: "validateGenerationParams toy_ext acct_B (Num 100) = Inr 100"
  by code_simp



subsection \<open>Step 0 of the redemption\<close>

text \<open>
  C10. When \<open>agentId\<close> is absent or empty, \<open>redeemWithdrawalToken\<close> returns INVALID at once,
  whatever the token: the store is unchanged and no statement is sent to it (the trace is
  empty, so no transaction is opened).
\<close>

theorem redeem_without_agent_invalid:
  "agentId = None \<or> agentId = Some [] \<Longrightarrow>
     redeemWithdrawalToken ext cfg env fullToken agentId metadata db = (Inr INVALID, db, [])"
  by (auto simp: redeemWithdrawalToken_def)

theorem redeem_without_agent_invalid_witness:
  "redeemWithdrawalToken toy_ext toy_cfg env0 ''0123-ABCDEFGH'' None ''{}'' store1
     = (Inr INVALID, store1, [])
   \<and> redeemWithdrawalToken toy_ext toy_cfg env0 ''0123-ABCDEFGH'' (Some []) ''{}'' store1
     = (Inr INVALID, store1, [])"
  using redeem_without_agent_invalid [of None toy_ext toy_cfg env0 "''0123-ABCDEFGH''" "''{}''" store1]
        redeem_without_agent_invalid [of "Some []" toy_ext toy_cfg env0 "''0123-ABCDEFGH''" "''{}''" store1]
  by simp

text \<open>
  C7. Step 0 is meant to let only a token of two segments, of 4 and of 8 characters, reach
  the store. The code splits on every \<open>-\<close> and looks at the first two segments only: the
  three-segment input \<open>ABCD-12345678-X\<close> passes Step 0, a transaction is opened and the
  candidate query for the prefix \<open>ABCD\<close> is sent, on every store.
\<close>

theorem redeem_third_segment_reaches_store:
  "\<exists>out db' rest.
     redeemWithdrawalToken ext cfg env ''ABCD-12345678-X'' (Some ''atm-1'') metadata db
       = (out, db', TxBegin ''repeatable read'' # SelectCandidates ''ABCD'' (now_lookup env) # rest)"
proof -
  obtain out db' tr where
    r: "redeemWithdrawalToken ext cfg env ''ABCD-12345678-X'' (Some ''atm-1'') metadata db
          = (out, db', tr)"
    by (metis prod_cases3)
  then have t: "transaction ''repeatable read''
                  (redeem_callback ext cfg env ''ABCD-12345678-X'' ''ABCD'' ''atm-1'' metadata) db
                = (out, db', tr)"
    by (simp add: redeemWithdrawalToken_def)
  from transaction_trace [OF t] redeem_callback_trace show ?thesis
    unfolding r by fastforce
qed

theorem redeem_third_segment_reaches_store_witness:
  "redeemWithdrawalToken toy_ext toy_cfg env0 ''ABCD-12345678-X'' (Some ''atm-1'') ''{}'' store1
     = (Inr INVALID, store1,
        TxBegin ''repeatable read'' # SelectCandidates ''ABCD'' 2000 # [TxCommit])"
  using redeem_third_segment_reaches_store [of toy_ext toy_cfg env0 "''{}''" store1]
        eval_redeem_third_segment
  by simp

subsection \<open>Generation\<close>

text \<open>
  C8. For every amount that is not a strictly positive integer (a fraction, a negative
  number, zero, NaN, an infinity), \<open>generateWithdrawalToken\<close> throws the validation error
  before anything else happens: nothing is drawn, hashed or inserted (the trace is empty)
  and the store is unchanged.
\<close>

theorem generate_rejects_amount:
  assumes "\<not> (\<exists>n::int. 0 < n \<and> amount = Num (of_int n))"
  shows "\<exists>e. generateWithdrawalToken ext cfg draws accountId amount db
               = (Inl (InvalidParams e), db, [])"
proof (cases "validateGenerationParams ext accountId amount")
  case (Inl e)
  then show ?thesis by (simp add: generateWithdrawalToken_def)
next
  case (Inr a)
  then have "amount = Num a" "is_integer a" "a > 0"
    by (auto simp: validateGenerationParams_def split: if_splits js_number.splits)
  then have "0 < \<lfloor>a\<rfloor> \<and> amount = Num (of_int \<lfloor>a\<rfloor>)"
    by (auto simp: is_integer_def)
  with assms show ?thesis by blast
qed

theorem generate_rejects_amount_witness:
  "(\<exists>e. generateWithdrawalToken toy_ext toy_cfg (\<lambda>k. draw0) acct_A (Num (201 / 2)) store0
          = (Inl (InvalidParams e), store0, []))
   \<and> (\<exists>e. generateWithdrawalToken toy_ext toy_cfg (\<lambda>k. draw0) acct_A (Num (- 50)) store0
          = (Inl (InvalidParams e), store0, []))
   \<and> (\<exists>e. generateWithdrawalToken toy_ext toy_cfg (\<lambda>k. draw0) acct_A (Num 0) store0
          = (Inl (InvalidParams e), store0, []))"
proof -
  have half: "\<not> (\<exists>n::int. 0 < n \<and> Num (201 / 2) = Num (of_int n))"
  proof
    assume "\<exists>n::int. 0 < n \<and> Num (201 / 2) = Num (of_int n)"
    then obtain n :: int where "(of_int n :: rat) = 201 / 2" by auto
    then have "(of_int (2 * n) :: rat) = of_int 201" by simp
    then have "2 * n = 201" by (simp only: of_int_eq_iff)
    then show False by presburger
  qed
  have neg: "\<not> (\<exists>n::int. 0 < n \<and> Num (- 50) = Num (of_int n))"
  proof
    assume "\<exists>n::int. 0 < n \<and> Num (- 50) = Num (of_int n)"
    then obtain n :: int where "0 < n" "(of_int n :: rat) = of_int (- 50)" by auto
    then have "0 < n" "n = - 50" by (simp_all only: of_int_eq_iff)
    then show False by simp
  qed
  have zero: "\<not> (\<exists>n::int. 0 < n \<and> Num 0 = Num (of_int n))"
    by auto
  show ?thesis
    using generate_rejects_amount [OF half] generate_rejects_amount [OF neg]
          generate_rejects_amount [OF zero]
    by blast
qed

text \<open>
  C9. Once the parameters are valid, \<open>generateWithdrawalToken\<close> runs \<open>n\<close> rounds with
  \<open>1 \<le> n \<le> 3\<close>, each with its own draws of prefix, core and salt and one insert:
  every round before the last met a uniqueness violation; the last round either inserted
  the row (the result is its token), or met a third uniqueness violation (the call throws
  \<open>Failed to generate unique token after maximum retries\<close>), or met another storage error,
  which is thrown on at once. Every failed call leaves the store as it was. The loop is a
  total function.
\<close>

theorem generation_retry_bounded:
  assumes valid: "validateGenerationParams ext accountId amount = Inr a"
    and run: "generateWithdrawalToken ext cfg draws accountId amount db = (out, db', tr)"
  shows "\<exists>n. 1 \<le> n \<and> n \<le> 3
           \<and> tr = concat (replicate n attempt_events)
           \<and> length (filter (\<lambda>e. e = InsertToken) tr) = n
           \<and> (\<forall>j < n - 1. generation_attempt ext cfg (draws j) accountId a db
                             = Inl UniqueViolation)
           \<and> (\<forall>r db1. generation_attempt ext cfg (draws (n - 1)) accountId a db = Inr (r, db1)
                  \<longrightarrow> out = Inr (Some r) \<and> db' = db1)
           \<and> (generation_attempt ext cfg (draws (n - 1)) accountId a db = Inl UniqueViolation
                  \<longrightarrow> n = 3 \<and> db' = db
                    \<and> out = Inl (JsError ''Failed to generate unique token after maximum retries''))
           \<and> (\<forall>err. generation_attempt ext cfg (draws (n - 1)) accountId a db = Inl err
                      \<and> err \<noteq> UniqueViolation \<longrightarrow> out = Inl (Storage err) \<and> db' = db)"
proof -
  from valid run have loop: "generation_loop ext cfg draws accountId a 0 db = (out, db', tr)"
    by (simp add: generateWithdrawalToken_def)
  have lt: "0 < MAX_RETRIES" by (simp add: MAX_RETRIES_def)
  from generation_loop_rounds [OF loop lt] obtain n where
    n: "1 \<le> n" "n \<le> 3" "tr = concat (replicate n attempt_events)"
       "\<forall>j < n - 1. generation_attempt ext cfg (draws j) accountId a db = Inl UniqueViolation"
       "\<forall>r db1. generation_attempt ext cfg (draws (n - 1)) accountId a db = Inr (r, db1)
                  \<longrightarrow> out = Inr (Some r) \<and> db' = db1"
       "generation_attempt ext cfg (draws (n - 1)) accountId a db = Inl UniqueViolation
                  \<longrightarrow> n = 3 \<and> db' = db
                    \<and> out = Inl (JsError ''Failed to generate unique token after maximum retries'')"
       "\<forall>err. generation_attempt ext cfg (draws (n - 1)) accountId a db = Inl err
                      \<and> err \<noteq> UniqueViolation \<longrightarrow> out = Inl (Storage err) \<and> db' = db"
    unfolding MAX_RETRIES_def by auto
  from n(3) have "length (filter (\<lambda>e. e = InsertToken) tr) = n"
    by (simp only: count_inserts)
  with n show ?thesis by blast
qed

theorem generation_retry_bounded_witness:
  "generateWithdrawalToken toy_ext toy_cfg (\<lambda>k. draw0) acct_A (Num 100) store1
     = (Inl (JsError ''Failed to generate unique token after maximum retries''), store1,
        attempt_events @ attempt_events @ attempt_events)
   \<and> generation_attempt toy_ext toy_cfg draw0 acct_A 100 store1 = Inl UniqueViolation
   \<and> length (filter (\<lambda>e. e = InsertToken) (attempt_events @ attempt_events @ attempt_events)) \<le> 3
   \<and> generateWithdrawalToken toy_ext toy_cfg (\<lambda>k. if k = 0 then draw0 else draw1) acct_A (Num 100) store1
     = (Inr (Some \<lparr>g_id = 2, g_token = ''0123-IJKLMNOP'', g_amount = 100, g_expiresAt = 301005\<rparr>),
        store1\<lparr>tokens := [tokenA, tokenB]\<rparr>, attempt_events @ attempt_events)
   \<and> generateWithdrawalToken toy_ext toy_cfg (\<lambda>k. draw1) acct_B (Num 100) store1
     = (Inl (Storage ForeignKeyViolation), store1, attempt_events)
   \<and> generation_attempt toy_ext toy_cfg draw1 acct_B 100 store1 = Inl ForeignKeyViolation"
proof -
  have a: "generation_attempt toy_ext toy_cfg draw0 acct_A 100 store1 = Inl UniqueViolation"
    and b: "generation_attempt toy_ext toy_cfg draw1 acct_B 100 store1 = Inl ForeignKeyViolation"
    by code_simp+
  from generation_retry_bounded [OF eval_valid_A eval_generate_exhausted] obtain n where
    "n \<le> 3"
    "length (filter (\<lambda>e. e = InsertToken) (attempt_events @ attempt_events @ attempt_events)) = n"
    by blast
  then have
    c: "length (filter (\<lambda>e. e = InsertToken) (attempt_events @ attempt_events @ attempt_events)) \<le> 3"
    by (simp only:)
  show ?thesis
    by (intro conjI) (rule eval_generate_exhausted a c eval_generate_retry
                        eval_generate_foreign_key b)+
qed

subsection \<open>The transaction of a redemption\<close>

text \<open>
  C3, as stated: the candidate lookup and the hash verification run outside any
  transaction, which is opened only for the locked step. On the code this fails: in the
  redemption of the sample token the transaction is already open when the candidate query
  is sent and when the hashes are verified.
\<close>

theorem redeem_lookup_inside_transaction:
  "inside_transaction
     (snd (snd (redeemWithdrawalToken toy_ext toy_cfg env0 ''0123-ABCDEFGH'' (Some ''atm-1'') ''{}'' store1)))
     (SelectCandidates ''0123'' 2000)
   \<and> inside_transaction
     (snd (snd (redeemWithdrawalToken toy_ext toy_cfg env0 ''0123-ABCDEFGH'' (Some ''atm-1'') ''{}'' store1)))
     HashVerify"
  unfolding eval_redeem_A by (simp add: inside_transaction_def)

text \<open>
  C3, amended: Step 0 alone runs outside any transaction and sends nothing to the store:
  an input whose first two segments of the split at \<open>-\<close> are not of 4 and 8 characters, or
  that comes without an agent, is answered INVALID with an empty trace and an unchanged
  store. Every input that passes Step 0 first opens one transaction at isolation level
  \<open>repeatable read\<close>; the candidate query for the prefix and the hashes of the verification
  loop (one for each candidate compared) are its first steps, inside it. The row lock is
  taken only when the loop has matched a candidate, for that candidate, and the update and
  the two inserts only after the lock; without a match nothing follows the verification.
  The transaction ends with a commit when the callback returns and with a rollback when
  it throws.
\<close>

theorem redeem_transaction_scope:
  assumes run: "redeemWithdrawalToken ext cfg env fullToken agentId metadata db = (out, db', tr)"
  shows "(\<not> (\<exists>pfx coreToken rest agent.
              split_on CHR ''-'' fullToken = pfx # coreToken # rest
            \<and> length pfx = 4 \<and> length coreToken = 8 \<and> agentId = Some agent \<and> agent \<noteq> [])
          \<longrightarrow> out = Inr INVALID \<and> db' = db \<and> tr = [])
       \<and> (\<forall>pfx coreToken rest agent.
              split_on CHR ''-'' fullToken = pfx # coreToken # rest
            \<and> length pfx = 4 \<and> length coreToken = 8 \<and> agentId = Some agent \<and> agent \<noteq> []
            \<longrightarrow>
            (\<exists>k body.
                k \<le> length (candidateTokens db pfx (now_lookup env))
              \<and> verify_trace ext cfg fullToken (candidateTokens db pfx (now_lookup env))
                  = replicate k HashVerify
              \<and> tr = TxBegin ''repeatable read'' # SelectCandidates pfx (now_lookup env)
                     # replicate k HashVerify
                     @ body @ [if isl out then TxRollback else TxCommit]
              \<and> (\<forall>e. verify_candidates ext cfg fullToken
                         (candidateTokens db pfx (now_lookup env)) = Inl e
                       \<longrightarrow> body = [] \<and> out = Inl e \<and> db' = db)
              \<and> (verify_candidates ext cfg fullToken
                         (candidateTokens db pfx (now_lookup env)) = Inr None
                       \<longrightarrow> body = [] \<and> out = Inr INVALID \<and> db' = db)
              \<and> (\<forall>m. verify_candidates ext cfg fullToken
                         (candidateTokens db pfx (now_lookup env)) = Inr (Some m)
                       \<longrightarrow> (\<exists>db0. redeem_locked env m agent metadata db = (out, db0, body)
                                  \<and> db' = (if isl out then db else db0))
                           \<and> (body = [SelectForUpdate m]
                              \<or> body = [SelectForUpdate m, UpdateTokenUsed m, InsertTransaction]
                              \<or> body = [SelectForUpdate m, UpdateTokenUsed m, InsertTransaction,
                                         InsertAttempt]))))"
proof (intro conjI impI allI)
  assume no: "\<not> (\<exists>pfx coreToken rest agent.
              split_on CHR ''-'' fullToken = pfx # coreToken # rest
            \<and> length pfx = 4 \<and> length coreToken = 8 \<and> agentId = Some agent \<and> agent \<noteq> [])"
  with redeem_cases [OF run] have r: "out = Inr INVALID \<and> db' = db \<and> tr = []" by blast
  from r show "out = Inr INVALID" by simp
  from r show "db' = db" by simp
  from r show "tr = []" by simp
next
  fix pfx coreToken rest agent
  assume pass: "split_on CHR ''-'' fullToken = pfx # coreToken # rest
            \<and> length pfx = 4 \<and> length coreToken = 8 \<and> agentId = Some agent \<and> agent \<noteq> []"
  let ?cands = "candidateTokens db pfx (now_lookup env)"
  from pass run redeem_pass [of fullToken pfx coreToken rest agent ext cfg env metadata db]
  have t: "transaction ''repeatable read''
             (redeem_callback ext cfg env fullToken pfx agent metadata) db = (out, db', tr)"
    by simp
  obtain out0 db0 tr0 where
    c: "redeem_callback ext cfg env fullToken pfx agent metadata db = (out0, db0, tr0)"
    by (metis prod_cases3)
  with t have o: "out0 = out" and d: "db' = (if isl out then db else db0)"
    and tr: "tr = TxBegin ''repeatable read'' # tr0 @ [if isl out then TxRollback else TxCommit]"
    by (auto simp: transaction_def split: sum.splits)
  from verify_trace_hashes [of ?cands ext cfg fullToken] obtain k where
    k: "k \<le> length ?cands" "verify_trace ext cfg fullToken ?cands = replicate k HashVerify"
    by blast
  define body where "body = drop (Suc k) tr0"
  from callback_cases [OF c] k(2)
  have tr0: "tr0 = SelectCandidates pfx (now_lookup env) # replicate k HashVerify @ body"
    unfolding body_def by auto
  have e: "\<forall>e. verify_candidates ext cfg fullToken ?cands = Inl e
              \<longrightarrow> body = [] \<and> out = Inl e \<and> db' = db"
    using callback_cases [OF c] k(2) o d unfolding body_def by auto
  have n: "verify_candidates ext cfg fullToken ?cands = Inr None
              \<longrightarrow> body = [] \<and> out = Inr INVALID \<and> db' = db"
    using callback_cases [OF c] k(2) o d unfolding body_def by auto
  have m: "\<forall>m. verify_candidates ext cfg fullToken ?cands = Inr (Some m)
              \<longrightarrow> (\<exists>db0. redeem_locked env m agent metadata db = (out, db0, body)
                        \<and> db' = (if isl out then db else db0))
                  \<and> (body = [SelectForUpdate m]
                     \<or> body = [SelectForUpdate m, UpdateTokenUsed m, InsertTransaction]
                     \<or> body = [SelectForUpdate m, UpdateTokenUsed m, InsertTransaction,
                                InsertAttempt])"
  proof (intro allI impI)
    fix m assume v: "verify_candidates ext cfg fullToken ?cands = Inr (Some m)"
    with callback_cases [OF c] k(2) o have
      l: "redeem_locked env m agent metadata db = (out, db0, body)"
      unfolding body_def by auto
    from locked_cases [OF l]
    have "body = [SelectForUpdate m]
        \<or> body = [SelectForUpdate m, UpdateTokenUsed m, InsertTransaction]
        \<or> body = [SelectForUpdate m, UpdateTokenUsed m, InsertTransaction, InsertAttempt]"
      by auto
    with l d show "(\<exists>db0. redeem_locked env m agent metadata db = (out, db0, body)
                        \<and> db' = (if isl out then db else db0))
                  \<and> (body = [SelectForUpdate m]
                     \<or> body = [SelectForUpdate m, UpdateTokenUsed m, InsertTransaction]
                     \<or> body = [SelectForUpdate m, UpdateTokenUsed m, InsertTransaction,
                                InsertAttempt])"
      by blast
  qed
  from tr tr0 have "tr = TxBegin ''repeatable read'' # SelectCandidates pfx (now_lookup env)
                     # replicate k HashVerify
                     @ body @ [if isl out then TxRollback else TxCommit]"
    by simp
  with k e n m
  show "\<exists>k body.
                k \<le> length (candidateTokens db pfx (now_lookup env))
              \<and> verify_trace ext cfg fullToken (candidateTokens db pfx (now_lookup env))
                  = replicate k HashVerify
              \<and> tr = TxBegin ''repeatable read'' # SelectCandidates pfx (now_lookup env)
                     # replicate k HashVerify
                     @ body @ [if isl out then TxRollback else TxCommit]
              \<and> (\<forall>e. verify_candidates ext cfg fullToken
                         (candidateTokens db pfx (now_lookup env)) = Inl e
                       \<longrightarrow> body = [] \<and> out = Inl e \<and> db' = db)
              \<and> (verify_candidates ext cfg fullToken
                         (candidateTokens db pfx (now_lookup env)) = Inr None
                       \<longrightarrow> body = [] \<and> out = Inr INVALID \<and> db' = db)
              \<and> (\<forall>m. verify_candidates ext cfg fullToken
                         (candidateTokens db pfx (now_lookup env)) = Inr (Some m)
                       \<longrightarrow> (\<exists>db0. redeem_locked env m agent metadata db = (out, db0, body)
                                  \<and> db' = (if isl out then db else db0))
                           \<and> (body = [SelectForUpdate m]
                              \<or> body = [SelectForUpdate m, UpdateTokenUsed m, InsertTransaction]
                              \<or> body = [SelectForUpdate m, UpdateTokenUsed m, InsertTransaction,
                                         InsertAttempt]))"
    by blast
qed

theorem redeem_transaction_scope_witness:
  "redeemWithdrawalToken toy_ext toy_cfg env0 ''12345678'' (Some ''atm-1'') ''{}'' store1
     = (Inr INVALID, store1, [])
   \<and> split_on CHR ''-'' ''0123-ABCDEFGH'' = [''0123'', ''ABCDEFGH'']
   \<and> verify_candidates toy_ext toy_cfg ''0123-ABCDEFGH'' (candidateTokens store1 ''0123'' 2000)
       = Inr (Some 1)
   \<and> (\<exists>k body.
         k \<le> length (candidateTokens store1 ''0123'' 2000)
       \<and> redeemWithdrawalToken toy_ext toy_cfg env0 ''0123-ABCDEFGH'' (Some ''atm-1'') ''{}'' store1
           = (Inr (SUCCESS 1 7), store2,
              TxBegin ''repeatable read'' # SelectCandidates ''0123'' 2000
                # replicate k HashVerify @ body @ [TxCommit])
       \<and> redeem_locked env0 1 ''atm-1'' ''{}'' store1 = (Inr (SUCCESS 1 7), store2, body))"
proof -
  obtain out db' tr where
    r: "redeemWithdrawalToken toy_ext toy_cfg env0 ''12345678'' (Some ''atm-1'') ''{}'' store1
          = (out, db', tr)"
    by (rule prod_cases3)
  have one: "split_on CHR ''-'' ''12345678'' = [''12345678'']" by simp
  have no: "\<not> (\<exists>pfx coreToken rest agent.
              split_on CHR ''-'' ''12345678'' = pfx # coreToken # rest
            \<and> length pfx = 4 \<and> length coreToken = 8 \<and> Some ''atm-1'' = Some agent \<and> agent \<noteq> [])"
    unfolding one by simp
  from redeem_transaction_scope [OF r, THEN conjunct1, rule_format, OF no]
  have "out = Inr INVALID \<and> db' = store1 \<and> tr = []" .
  with r have first: "redeemWithdrawalToken toy_ext toy_cfg env0 ''12345678'' (Some ''atm-1'') ''{}''
                        store1 = (Inr INVALID, store1, [])"
    by simp
  have sp: "split_on CHR ''-'' ''0123-ABCDEFGH'' = [''0123'', ''ABCDEFGH'']" by simp
  have v: "verify_candidates toy_ext toy_cfg ''0123-ABCDEFGH'' (candidateTokens store1 ''0123'' 2000)
             = Inr (Some 1)"
    by code_simp
  have now: "now_lookup env0 = 2000" by (simp add: env0_def)
  have pass: "split_on CHR ''-'' ''0123-ABCDEFGH'' = ''0123'' # ''ABCDEFGH'' # []
            \<and> length ''0123'' = 4 \<and> length ''ABCDEFGH'' = 8
            \<and> Some ''atm-1'' = Some ''atm-1'' \<and> ''atm-1'' \<noteq> []"
    unfolding sp by simp
  note inst = redeem_transaction_scope [OF eval_redeem_A, THEN conjunct2, rule_format, OF pass,
                unfolded now]
  from inst obtain k body where
    k: "k \<le> length (candidateTokens store1 ''0123'' 2000)"
    and tr: "[TxBegin ''repeatable read'', SelectCandidates ''0123'' 2000, HashVerify,
        SelectForUpdate 1, UpdateTokenUsed 1, InsertTransaction, InsertAttempt, TxCommit]
       = TxBegin ''repeatable read'' # SelectCandidates ''0123'' 2000
           # replicate k HashVerify @ body
           @ [if isl (Inr (SUCCESS 1 7) :: error + redeem_outcome) then TxRollback else TxCommit]"
    and m: "\<forall>m. verify_candidates toy_ext toy_cfg ''0123-ABCDEFGH''
              (candidateTokens store1 ''0123'' 2000) = Inr (Some m)
            \<longrightarrow> (\<exists>db0. redeem_locked env0 m ''atm-1'' ''{}'' store1 = (Inr (SUCCESS 1 7), db0, body)
                      \<and> store2 = (if isl (Inr (SUCCESS 1 7) :: error + redeem_outcome)
                                  then store1 else db0))
                \<and> (body = [SelectForUpdate m]
                   \<or> body = [SelectForUpdate m, UpdateTokenUsed m, InsertTransaction]
                   \<or> body = [SelectForUpdate m, UpdateTokenUsed m, InsertTransaction,
                              InsertAttempt])"
    by (elim exE conjE)
  from m [rule_format, OF v] obtain db0 where
    "redeem_locked env0 1 ''atm-1'' ''{}'' store1 = (Inr (SUCCESS 1 7), db0, body)"
    "store2 = (if isl (Inr (SUCCESS 1 7) :: error + redeem_outcome) then store1 else db0)"
    by (elim exE conjE)
  then have l: "redeem_locked env0 1 ''atm-1'' ''{}'' store1 = (Inr (SUCCESS 1 7), store2, body)"
    by simp
  have tr': "TxBegin ''repeatable read'' # SelectCandidates ''0123'' 2000
           # replicate k HashVerify @ body @ [TxCommit]
         = [TxBegin ''repeatable read'', SelectCandidates ''0123'' 2000, HashVerify,
        SelectForUpdate 1, UpdateTokenUsed 1, InsertTransaction, InsertAttempt, TxCommit]"
    using tr [symmetric] by simp
  have e: "redeemWithdrawalToken toy_ext toy_cfg env0 ''0123-ABCDEFGH'' (Some ''atm-1'') ''{}'' store1
           = (Inr (SUCCESS 1 7), store2,
              TxBegin ''repeatable read'' # SelectCandidates ''0123'' 2000
                # replicate k HashVerify @ body @ [TxCommit])"
    unfolding tr' by (rule eval_redeem_A)
  from k e l have "\<exists>k body.
         k \<le> length (candidateTokens store1 ''0123'' 2000)
       \<and> redeemWithdrawalToken toy_ext toy_cfg env0 ''0123-ABCDEFGH'' (Some ''atm-1'') ''{}'' store1
           = (Inr (SUCCESS 1 7), store2,
              TxBegin ''repeatable read'' # SelectCandidates ''0123'' 2000
                # replicate k HashVerify @ body @ [TxCommit])
       \<and> redeem_locked env0 1 ''atm-1'' ''{}'' store1 = (Inr (SUCCESS 1 7), store2, body)"
    by (intro exI [of _ k] exI [of _ body] conjI)
  with first sp v show ?thesis by (intro conjI)
qed

text \<open>
  C5. A redemption that throws leaves the store as it was, its transaction rolled back;
  INVALID and EXPIRED_OR_USED leave it as it was too. A redemption that returns SUCCESS
  has, in the one committed transaction, marked the token USED with its \<open>used_at\<close>,
  appended the WITHDRAWAL/SUCCESS ledger row and appended the attempt row.
\<close>

theorem redemption_atomic:
  assumes "redeemWithdrawalToken ext cfg env fullToken agentId metadata db = (out, db', tr)"
  shows "(\<forall>e. out = Inl e \<longrightarrow> db' = db \<and> last tr = TxRollback)
       \<and> (out = Inr INVALID \<or> out = Inr EXPIRED_OR_USED \<longrightarrow> db' = db)
       \<and> (\<forall>tid x. out = Inr (SUCCESS tid x) \<longrightarrow>
            (\<exists>pfx agent t.
               agentId = Some agent \<and> first_for_update db tid = Some t
             \<and> tokens db' = tokens (update_used db tid (now_used env))
             \<and> first_for_update db' tid
                 = Some (t\<lparr>tok_status := USED, tok_used_at := Some (now_used env)\<rparr>)
             \<and> transactions db' = transactions db @
                  [\<lparr>txn_id = x, txn_account_id = tok_account_id t, txn_token_id = tid,
                    txn_type = WITHDRAWAL, txn_amount = tok_amount t, txn_status = TX_SUCCESS\<rparr>]
             \<and> redemption_attempts db' = redemption_attempts db @
                  [\<lparr>att_id = new_attempt_id env, att_token_id = tid, att_agent_id = agent,
                    att_result = ATT_SUCCESS, att_metadata = metadata\<rparr>]
             \<and> tr = TxBegin ''repeatable read'' # SelectCandidates pfx (now_lookup env)
                    # verify_trace ext cfg fullToken (candidateTokens db pfx (now_lookup env))
                    @ [SelectForUpdate tid, UpdateTokenUsed tid, InsertTransaction,
                       InsertAttempt, TxCommit]))"
proof (intro conjI allI impI)
  fix e assume e: "out = Inl e"
  with assms redeem_unchanged show "db' = db" by blast
  from assms e redeem_empty_trace have "tr \<noteq> []" by blast
  with redeem_trace_shape [OF assms] e show "last tr = TxRollback"
    by auto
next
  assume "out = Inr INVALID \<or> out = Inr EXPIRED_OR_USED"
  with assms redeem_unchanged show "db' = db" by blast
next
  fix tid x assume "out = Inr (SUCCESS tid x)"
  with assms have a: "redeemWithdrawalToken ext cfg env fullToken agentId metadata db
             = (Inr (SUCCESS tid x), db', tr)" by simp
  from redeem_success [OF a] obtain pfx agent t where
    s: "agentId = Some agent" "first_for_update db tid = Some t" "tok_status t = ACTIVE"
       "x = new_txn_id env"
       "db' = db\<lparr>tokens := tokens (update_used db tid (now_used env)),
                     transactions := transactions db @
                       [\<lparr>txn_id = new_txn_id env, txn_account_id = tok_account_id t,
                         txn_token_id = tid, txn_type = WITHDRAWAL,
                         txn_amount = tok_amount t, txn_status = TX_SUCCESS\<rparr>],
                     redemption_attempts := redemption_attempts db @
                       [\<lparr>att_id = new_attempt_id env, att_token_id = tid,
                         att_agent_id = agent, att_result = ATT_SUCCESS,
                         att_metadata = metadata\<rparr>]\<rparr>"
       "tr = TxBegin ''repeatable read'' # SelectCandidates pfx (now_lookup env)
                # verify_trace ext cfg fullToken (candidateTokens db pfx (now_lookup env))
                @ [SelectForUpdate tid, UpdateTokenUsed tid, InsertTransaction, InsertAttempt,
                   TxCommit]"
    by blast
  have f: "find (\<lambda>t. tok_id t = tid) (tokens (update_used db tid (now_used env)))
           = Some (t\<lparr>tok_status := USED, tok_used_at := Some (now_used env)\<rparr>)"
    using s(2,3) find_map_used unfolding first_for_update_def update_used_def
    by simp
  show "\<exists>pfx agent t.
               agentId = Some agent \<and> first_for_update db tid = Some t
             \<and> tokens db' = tokens (update_used db tid (now_used env))
             \<and> first_for_update db' tid
                 = Some (t\<lparr>tok_status := USED, tok_used_at := Some (now_used env)\<rparr>)
             \<and> transactions db' = transactions db @
                  [\<lparr>txn_id = x, txn_account_id = tok_account_id t, txn_token_id = tid,
                    txn_type = WITHDRAWAL, txn_amount = tok_amount t, txn_status = TX_SUCCESS\<rparr>]
             \<and> redemption_attempts db' = redemption_attempts db @
                  [\<lparr>att_id = new_attempt_id env, att_token_id = tid, att_agent_id = agent,
                    att_result = ATT_SUCCESS, att_metadata = metadata\<rparr>]
             \<and> tr = TxBegin ''repeatable read'' # SelectCandidates pfx (now_lookup env)
                    # verify_trace ext cfg fullToken (candidateTokens db pfx (now_lookup env))
                    @ [SelectForUpdate tid, UpdateTokenUsed tid, InsertTransaction,
                       InsertAttempt, TxCommit]"
    using s f by (auto simp: first_for_update_def)
qed

theorem redemption_atomic_witness:
  "redeemWithdrawalToken toy_ext toy_cfg env_clash ''0123-IJKLMNOP'' (Some ''atm-2'') ''{}'' store3
     = (Inl (Storage UniqueViolation), store3,
        [TxBegin ''repeatable read'', SelectCandidates ''0123'' 3000, HashVerify,
         SelectForUpdate 2, UpdateTokenUsed 2, InsertTransaction, InsertAttempt, TxRollback])
   \<and> map tok_status (tokens store3) = [USED, ACTIVE]
   \<and> map tok_status (tokens (fst (snd (redeem_callback toy_ext toy_cfg env_clash ''0123-IJKLMNOP''
                                          ''0123'' ''atm-2'' ''{}'' store3)))) = [USED, USED]
   \<and> map txn_id (transactions store3) = [7]
   \<and> map txn_id (transactions (fst (snd (redeem_callback toy_ext toy_cfg env_clash ''0123-IJKLMNOP''
                                          ''0123'' ''atm-2'' ''{}'' store3)))) = [7, 8]
   \<and> first_for_update store2 1 = Some (tokenA\<lparr>tok_status := USED, tok_used_at := Some 2002\<rparr>)
   \<and> transactions store2 = transactions store1 @
        [\<lparr>txn_id = 7, txn_account_id = acct_A, txn_token_id = 1, txn_type = WITHDRAWAL,
          txn_amount = 100, txn_status = TX_SUCCESS\<rparr>]
   \<and> redemption_attempts store2 = redemption_attempts store1 @
        [\<lparr>att_id = 9, att_token_id = 1, att_agent_id = ''atm-1'', att_result = ATT_SUCCESS,
          att_metadata = ''{}''\<rparr>]"
proof -
  have a: "map tok_status (tokens store3) = [USED, ACTIVE]"
    and b: "map tok_status (tokens (fst (snd (redeem_callback toy_ext toy_cfg env_clash
              ''0123-IJKLMNOP'' ''0123'' ''atm-2'' ''{}'' store3)))) = [USED, USED]"
    and c: "map txn_id (transactions store3) = [7]"
    and d: "map txn_id (transactions (fst (snd (redeem_callback toy_ext toy_cfg env_clash
              ''0123-IJKLMNOP'' ''0123'' ''atm-2'' ''{}'' store3)))) = [7, 8]"
    and f: "first_for_update store1 1 = Some tokenA"
    by code_simp+
  from redemption_atomic [OF eval_redeem_A] f
  have "first_for_update store2 1 = Some (tokenA\<lparr>tok_status := USED, tok_used_at := Some 2002\<rparr>)
      \<and> transactions store2 = transactions store1 @
        [\<lparr>txn_id = 7, txn_account_id = acct_A, txn_token_id = 1, txn_type = WITHDRAWAL,
          txn_amount = 100, txn_status = TX_SUCCESS\<rparr>]
      \<and> redemption_attempts store2 = redemption_attempts store1 @
        [\<lparr>att_id = 9, att_token_id = 1, att_agent_id = ''atm-1'', att_result = ATT_SUCCESS,
          att_metadata = ''{}''\<rparr>]"
    by (auto simp: env0_def tokenA_def)
  with redemption_atomic [OF eval_redeem_B_clash] eval_redeem_B_clash a b c d
  show ?thesis by simp
qed

text \<open>
  C4. The claim wants an attempt row for every outcome once a candidate matched. When
  the matched token fails the check under the lock, the code returns EXPIRED_OR_USED
  after the row lock and commits without a write: the store, and with it the table of
  attempts, is unchanged.
\<close>

theorem expired_or_used_leaves_no_attempt:
  assumes "redeemWithdrawalToken ext cfg env fullToken agentId metadata db
             = (Inr EXPIRED_OR_USED, db', tr)"
  shows "\<exists>pfx m.
           verify_candidates ext cfg fullToken (candidateTokens db pfx (now_lookup env))
             = Inr (Some m)
         \<and> tr = TxBegin ''repeatable read'' # SelectCandidates pfx (now_lookup env)
                # verify_trace ext cfg fullToken (candidateTokens db pfx (now_lookup env))
                @ [SelectForUpdate m, TxCommit]
         \<and> redemption_attempts db' = redemption_attempts db \<and> db' = db"
proof -
  from redeem_cases [OF assms] obtain pfx agent where
    t: "transaction ''repeatable read''
          (redeem_callback ext cfg env fullToken pfx agent metadata) db
        = (Inr EXPIRED_OR_USED, db', tr)"
    by blast
  obtain out0 db0 tr0 where
    c: "redeem_callback ext cfg env fullToken pfx agent metadata db = (out0, db0, tr0)"
    by (metis prod_cases3)
  with t have o: "out0 = Inr EXPIRED_OR_USED" "db0 = db'"
      "tr = TxBegin ''repeatable read'' # tr0 @ [TxCommit]"
    by (auto simp: transaction_def split: sum.splits)
  from callback_cases [OF c] o obtain m tr' where
    v: "verify_candidates ext cfg fullToken (candidateTokens db pfx (now_lookup env)) = Inr (Some m)"
    and l: "redeem_locked env m agent metadata db = (Inr EXPIRED_OR_USED, db', tr')"
    and tr0: "tr0 = SelectCandidates pfx (now_lookup env)
                 # verify_trace ext cfg fullToken (candidateTokens db pfx (now_lookup env)) @ tr'"
    by auto
  from locked_cases [OF l] have "db' = db" "tr' = [SelectForUpdate m]" by auto
  with v o tr0 show ?thesis by auto
qed

theorem expired_or_used_leaves_no_attempt_witness:
  "verify_candidates toy_ext toy_cfg ''0123-ABCDEFGH'' (candidateTokens store1 ''0123'' 300999)
     = Inr (Some 1)
   \<and> redeemWithdrawalToken toy_ext toy_cfg env_late ''0123-ABCDEFGH'' (Some ''atm-1'') ''{}'' store1
     = (Inr EXPIRED_OR_USED, store1,
        [TxBegin ''repeatable read'', SelectCandidates ''0123'' 300999, HashVerify,
         SelectForUpdate 1, TxCommit])
   \<and> redemption_attempts store1 = []"
proof -
  have a: "redemption_attempts store1 = []"
    and v: "verify_candidates toy_ext toy_cfg ''0123-ABCDEFGH''
              (candidateTokens store1 ''0123'' 300999) = Inr (Some 1)"
    by code_simp+
  from expired_or_used_leaves_no_attempt [OF eval_redeem_A_late] a
  have "redemption_attempts store1 = []" by simp
  with v eval_redeem_A_late show ?thesis by simp
qed

subsection \<open>Expiry\<close>

text \<open>
  C6. When every row of the token has an \<open>expires_at\<close> strictly before the time of the
  presentation, the redemption never returns SUCCESS for it, whatever its status: the
  candidate query does not return it, and the check under the lock rejects it as well.
\<close>

theorem expired_token_not_redeemed:
  assumes expired: "\<forall>t \<in> set (tokens db). tok_id t = tid \<longrightarrow> tok_expires_at t < now_lookup env"
    and clock: "now_lookup env \<le> now_lock env"
  shows "(\<forall>x. fst (redeemWithdrawalToken ext cfg env fullToken agentId metadata db)
               \<noteq> Inr (SUCCESS tid x))
       \<and> (\<forall>pfx. tid \<notin> tok_id ` set (candidateTokens db pfx (now_lookup env)))
       \<and> redeem_locked env tid agent metadata db
           = (Inr EXPIRED_OR_USED, db, [SelectForUpdate tid])"
proof (intro conjI allI)
  show filtered: "tid \<notin> tok_id ` set (candidateTokens db pfx (now_lookup env))" for pfx
    using expired candidate_in_store by fastforce
  show "fst (redeemWithdrawalToken ext cfg env fullToken agentId metadata db)
          \<noteq> Inr (SUCCESS tid x)" for x
  proof
    assume s: "fst (redeemWithdrawalToken ext cfg env fullToken agentId metadata db)
                 = Inr (SUCCESS tid x)"
    then obtain db' tr where
      "redeemWithdrawalToken ext cfg env fullToken agentId metadata db
         = (Inr (SUCCESS tid x), db', tr)"
      by (metis fst_conv prod_cases3)
    from redeem_success [OF this] obtain pfx where
      "verify_candidates ext cfg fullToken (candidateTokens db pfx (now_lookup env))
         = Inr (Some tid)"
      by blast
    from verify_Some [OF this] filtered [of pfx] show False by auto
  qed
  show "redeem_locked env tid agent metadata db = (Inr EXPIRED_OR_USED, db, [SelectForUpdate tid])"
  proof (cases "first_for_update db tid")
    case None
    then show ?thesis by (simp add: redeem_locked_def)
  next
    case (Some t)
    with find_id expired clock have "tok_expires_at t \<le> now_lock env" by fastforce
    with Some show ?thesis by (simp add: redeem_locked_def)
  qed
qed

theorem expired_token_not_redeemed_witness:
  "fst (redeemWithdrawalToken toy_ext toy_cfg env_after ''0123-ABCDEFGH'' (Some ''atm-1'') ''{}'' store1)
     = Inr INVALID
   \<and> tokens store1 = [tokenA] \<and> tok_id tokenA = 1 \<and> tok_status tokenA = ACTIVE
   \<and> tok_expires_at tokenA < now_lookup env_after \<and> now_lookup env_after \<le> now_lock env_after
   \<and> 1 \<notin> tok_id ` set (candidateTokens store1 ''0123'' (now_lookup env_after))
   \<and> redeem_locked env_after 1 ''atm-1'' ''{}'' store1
       = (Inr EXPIRED_OR_USED, store1, [SelectForUpdate 1])"
proof -
  have h: "\<forall>t \<in> set (tokens store1). tok_id t = 1 \<longrightarrow> tok_expires_at t < now_lookup env_after"
    by (simp add: store1_def store0_def tokenA_def env_after_def)
  have c: "now_lookup env_after \<le> now_lock env_after"
    by (simp add: env_after_def)
  have e: "tokens store1 = [tokenA]" "tok_id tokenA = 1" "tok_status tokenA = ACTIVE"
    "tok_expires_at tokenA < now_lookup env_after"
    by (simp_all add: store1_def store0_def tokenA_def env_after_def)
  from expired_token_not_redeemed [OF h c, of toy_ext toy_cfg "''0123-ABCDEFGH''" "Some ''atm-1''"
         "''{}''" "''atm-1''"] eval_redeem_A_after c e
  show ?thesis by simp
qed

subsection \<open>Single use\<close>



subsection \<open>Generation, then redemption\<close>

text \<open>
  C2, as stated: after a successful generation for the amount 100 and before the expiry,
  the first redemption of the returned token by \<open>atm-1\<close> returns SUCCESS and the second
  returns EXPIRED_OR_USED. On the sample store the first call succeeds and the second,
  still before the expiry, returns INVALID: the candidate query asks for ACTIVE rows only,
  so the USED token is not found.
\<close>

theorem second_redemption_not_expired_or_used:
  "generateWithdrawalToken toy_ext toy_cfg (\<lambda>k. draw0) acct_A (Num 100) store0
     = (Inr (Some \<lparr>g_id = 1, g_token = ''0123-ABCDEFGH'', g_amount = 100, g_expiresAt = 301000\<rparr>),
        store1, attempt_events)
   \<and> now_lookup env0 < 301000 \<and> now_lock env0 < 301000
   \<and> redeemWithdrawalToken toy_ext toy_cfg env0 ''0123-ABCDEFGH'' (Some ''atm-1'') ''{}'' store1
     = (Inr (SUCCESS 1 7), store2,
        [TxBegin ''repeatable read'', SelectCandidates ''0123'' 2000, HashVerify,
         SelectForUpdate 1, UpdateTokenUsed 1, InsertTransaction, InsertAttempt, TxCommit])
   \<and> now_lookup env1 < 301000 \<and> now_lock env1 < 301000
   \<and> fst (redeemWithdrawalToken toy_ext toy_cfg env1 ''0123-ABCDEFGH'' (Some ''atm-1'') ''{}'' store2)
     = Inr INVALID
   \<and> fst (redeemWithdrawalToken toy_ext toy_cfg env1 ''0123-ABCDEFGH'' (Some ''atm-1'') ''{}'' store2)
     \<noteq> Inr EXPIRED_OR_USED"
  using eval_generate_A eval_redeem_A eval_redeem_A_again
  by (simp add: env0_def env1_def)

text \<open>
  C2, amended: after \<open>generateWithdrawalToken\<close> for the amount 100 has returned a token, and
  provided no ACTIVE token already in the store with the same prefix verifies against the
  new plaintext (each comparison answers false), both clock readings of the redemption are
  before the expiry and the database gives the ledger row and the attempt row unused ids,
  the first redemption of the returned plaintext by \<open>atm-1\<close> returns SUCCESS with the
  token id and the transaction id, and every later redemption of the same plaintext
  returns INVALID and leaves the store as it is.
\<close>

theorem generate_then_redeem:
  assumes gen: "generateWithdrawalToken ext cfg draws accountId (Num 100) db
                  = (Inr (Some g), db1, tr0)"
    and others: "\<forall>t \<in> set (tokens db).
                   tok_prefix t = take 4 (g_token g) \<and> tok_status t = ACTIVE \<longrightarrow>
                   timingSafeEqual (hashToken ext cfg (g_token g) (tok_salt t)) (tok_token_hash t)
                     = Inr False"
    and live: "now_lookup env < g_expiresAt g" "now_lock env < g_expiresAt g"
    and txn_fresh: "new_txn_id env \<notin> set (map txn_id (transactions db))"
    and att_fresh: "new_attempt_id env \<notin> set (map att_id (redemption_attempts db))"
  shows "\<exists>db2 tr1 tr2.
           redeemWithdrawalToken ext cfg env (g_token g) (Some ''atm-1'') metadata db1
             = (Inr (SUCCESS (g_id g) (new_txn_id env)), db2, tr1)
         \<and> redeemWithdrawalToken ext cfg env' (g_token g) (Some ''atm-1'') metadata' db2
             = (Inr INVALID, db2, tr2)"
proof -
  from generate_success [OF gen] obtain a d where
    v: "validateGenerationParams ext accountId (Num 100) = Inr a"
    and at: "generation_attempt ext cfg d accountId a db = Inr (g, db1)"
    by blast
  from valid_amount [OF v] have a: "a = 100" .
  from generation_attempt_row [OF at] obtain pfx core row where
    pfx: "pfx = generateRandomToken (prefix_rnd d) 4"
    and core: "core = generateRandomToken (core_rnd d) 8"
    and tok: "g_token g = pfx @ ''-'' @ core"
    and db1: "db1 = db\<lparr>tokens := tokens db @ [row]\<rparr>"
    and row: "tok_id row = g_id g" "tok_prefix row = pfx" "tok_status row = ACTIVE"
      "tok_expires_at row = g_expiresAt g" "tok_account_id row = accountId" "tok_amount row = a"
    and hash: "tok_token_hash row = hashToken ext cfg (g_token g) (tok_salt row)"
    and fresh: "g_id g \<notin> set (map tok_id (tokens db))"
    and acct: "accountId \<in> set (accounts db)"
    by blast
  have len: "length pfx = 4" "length core = 8"
    and nodash: "CHR ''-'' \<notin> set pfx" "CHR ''-'' \<notin> set core"
    unfolding pfx core by (simp_all add: random_token_length random_token_no_dash)
  have take4: "take 4 (g_token g) = pfx"
    using len by (simp add: tok)
  have step0: "redeemWithdrawalToken ext cfg e (g_token g) (Some ''atm-1'') m s
         = transaction ''repeatable read''
             (redeem_callback ext cfg e (g_token g) pfx ''atm-1'' m) s" for e m s
    unfolding tok using redeem_step0_pass [OF len nodash] by simp
  let ?old = "\<lambda>now. candidateTokens db pfx now"
  have old_fail: "\<forall>t \<in> set (?old now).
                    timingSafeEqual (hashToken ext cfg (g_token g) (tok_salt t)) (tok_token_hash t)
                      = Inr False" for now
    using others unfolding take4 by (simp add: candidateTokens_def)
  \<comment> \<open>the first redemption\<close>
  have cands1: "candidateTokens db1 pfx (now_lookup env) = ?old (now_lookup env) @ [row]"
    using row live(1) by (simp add: candidateTokens_def db1)
  have verify1: "verify_candidates ext cfg (g_token g) (candidateTokens db1 pfx (now_lookup env))
                   = Inr (Some (g_id g))"
    unfolding cands1 verify_skip [OF old_fail]
    by (simp add: hash [symmetric] timingSafeEqual_same row)
  have first1: "first_for_update db1 (g_id g) = Some row"
    unfolding first_for_update_def db1 using find_append_fresh [OF fresh row(1)] by simp
  let ?u = "update_used db1 (g_id g) (now_used env)"
  let ?txn = "\<lparr>txn_id = new_txn_id env, txn_account_id = tok_account_id row,
               txn_token_id = tok_id row, txn_type = WITHDRAWAL,
               txn_amount = tok_amount row, txn_status = TX_SUCCESS\<rparr>"
  let ?att = "\<lparr>att_id = new_attempt_id env, att_token_id = tok_id row,
               att_agent_id = ''atm-1'', att_result = ATT_SUCCESS, att_metadata = metadata\<rparr>"
  have ids_u: "map tok_id (tokens ?u) = map tok_id (tokens db) @ [g_id g]"
    by (simp add: update_used_ids db1 row)
  have fields_u: "accounts ?u = accounts db" "transactions ?u = transactions db"
    "redemption_attempts ?u = redemption_attempts db"
    by (simp_all add: update_used_def db1)
  have ins1: "insert_transaction ?u ?txn = Inr (?u\<lparr>transactions := transactions ?u @ [?txn]\<rparr>)"
    using txn_fresh acct
    by (simp add: insert_transaction_def row a numeric_15_2_def ids_u fields_u)
  let ?v = "?u\<lparr>transactions := transactions ?u @ [?txn]\<rparr>"
  define db2 where "db2 = ?v\<lparr>redemption_attempts := redemption_attempts ?v @ [?att]\<rparr>"
  have ins2: "insert_attempt ?v ?att = Inr db2"
    using att_fresh
    by (simp add: insert_attempt_def row ids_u fields_u db2_def)
  have locked1: "redeem_locked env (g_id g) ''atm-1'' metadata db1
                   = (Inr (SUCCESS (g_id g) (new_txn_id env)), db2,
                      [SelectForUpdate (g_id g), UpdateTokenUsed (g_id g), InsertTransaction,
                       InsertAttempt])"
    using live(2) ins1 ins2
    by (simp add: redeem_locked_def first1 row Let_def)
  have call1: "redeemWithdrawalToken ext cfg env (g_token g) (Some ''atm-1'') metadata db1
             = (Inr (SUCCESS (g_id g) (new_txn_id env)), db2,
                TxBegin ''repeatable read'' # SelectCandidates pfx (now_lookup env)
                  # verify_trace ext cfg (g_token g) (candidateTokens db1 pfx (now_lookup env))
                  @ [SelectForUpdate (g_id g), UpdateTokenUsed (g_id g), InsertTransaction,
                     InsertAttempt, TxCommit])"
    unfolding step0 by (simp add: transaction_def redeem_callback_def verify1 locked1)
  \<comment> \<open>the second redemption\<close>
  have tokens2: "tokens db2 = tokens ?u" by (simp add: db2_def)
  have cand2: "\<forall>t \<in> set (candidateTokens db2 pfx (now_lookup env')).
                 timingSafeEqual (hashToken ext cfg (g_token g) (tok_salt t)) (tok_token_hash t)
                   = Inr False"
  proof
    fix t assume "t \<in> set (candidateTokens db2 pfx (now_lookup env'))"
    then have t: "t \<in> set (tokens ?u)" "tok_prefix t = pfx" "tok_status t = ACTIVE"
      unfolding candidateTokens_def tokens2 by simp_all
    from update_used_active [OF t(1,3)] have "t \<in> set (tokens db1)" "tok_id t \<noteq> g_id g"
      by simp_all
    with row(1) have "t \<in> set (tokens db)" by (auto simp: db1)
    with others t take4
    show "timingSafeEqual (hashToken ext cfg (g_token g) (tok_salt t)) (tok_token_hash t)
            = Inr False"
      by simp
  qed
  then have verify2: "verify_candidates ext cfg (g_token g)
                        (candidateTokens db2 pfx (now_lookup env')) = Inr None"
    by (simp only: verify_None)
  have call2: "redeemWithdrawalToken ext cfg env' (g_token g) (Some ''atm-1'') metadata' db2
             = (Inr INVALID, db2,
                TxBegin ''repeatable read'' # SelectCandidates pfx (now_lookup env')
                  # verify_trace ext cfg (g_token g) (candidateTokens db2 pfx (now_lookup env'))
                  @ [TxCommit])"
    unfolding step0 by (simp add: transaction_def redeem_callback_def verify2)
  from call1 call2 show ?thesis by blast
qed

theorem generate_then_redeem_witness:
  "generateWithdrawalToken toy_ext toy_cfg (\<lambda>k. if k = 0 then draw0 else draw1) acct_A (Num 100) store1
     = (Inr (Some \<lparr>g_id = 2, g_token = ''0123-IJKLMNOP'', g_amount = 100, g_expiresAt = 301005\<rparr>),
        store1\<lparr>tokens := [tokenA, tokenB]\<rparr>, attempt_events @ attempt_events)
   \<and> (\<exists>db2 tr1 tr2.
         redeemWithdrawalToken toy_ext toy_cfg env1 ''0123-IJKLMNOP'' (Some ''atm-1'') ''{}''
           (store1\<lparr>tokens := [tokenA, tokenB]\<rparr>)
           = (Inr (SUCCESS 2 8), db2, tr1)
       \<and> redeemWithdrawalToken toy_ext toy_cfg env_clash ''0123-IJKLMNOP'' (Some ''atm-1'') ''{}'' db2
           = (Inr INVALID, db2, tr2))"
proof -
  let ?g = "\<lparr>g_id = 2, g_token = ''0123-IJKLMNOP'', g_amount = 100, g_expiresAt = 301005\<rparr>"
  have others: "\<forall>t \<in> set (tokens store1).
                   tok_prefix t = take 4 (g_token ?g) \<and> tok_status t = ACTIVE \<longrightarrow>
                   timingSafeEqual (hashToken toy_ext toy_cfg (g_token ?g) (tok_salt t))
                     (tok_token_hash t) = Inr False"
    by (simp add: store1_def store0_def tokenA_def timingSafeEqual_def hashToken_def toy_ext_def
          toy_cfg_def)
  have live: "now_lookup env1 < g_expiresAt ?g" "now_lock env1 < g_expiresAt ?g"
    by (simp_all add: env1_def)
  have txn_fresh: "new_txn_id env1 \<notin> set (map txn_id (transactions store1))"
    and att_fresh: "new_attempt_id env1 \<notin> set (map att_id (redemption_attempts store1))"
    by (simp_all add: store1_def store0_def)
  from generate_then_redeem [OF eval_generate_retry others live txn_fresh att_fresh,
         of "''{}''" env_clash "''{}''"]
  have "\<exists>db2 tr1 tr2.
         redeemWithdrawalToken toy_ext toy_cfg env1 ''0123-IJKLMNOP'' (Some ''atm-1'') ''{}''
           (store1\<lparr>tokens := [tokenA, tokenB]\<rparr>)
           = (Inr (SUCCESS 2 8), db2, tr1)
       \<and> redeemWithdrawalToken toy_ext toy_cfg env_clash ''0123-IJKLMNOP'' (Some ''atm-1'') ''{}'' db2
           = (Inr INVALID, db2, tr2)"
    by (simp add: env1_def)
  with eval_generate_retry show ?thesis by (rule conjI)
qed

end
